theory Spec2Isabelle
  imports Complex_Main
begin

section \<open>The mortgage overpayment simulation of \<open>app.py\<close>\<close>

text \<open>
  The development embeds \<open>run_simulation\<close> (\<open>src/app.py\<close>, lines 256--444), the only
  part of the application that computes; the rest of the file collects inputs and draws
  charts.

  Numbers. The source computes with Python integers and IEEE double-precision floats.
  The function is embedded twice. In the exact model, which comes first, every amount
  and rate is a \<open>real\<close>: its theorems are about the exact arithmetic the program
  approximates. The floating-point model follows the source a second time, with a
  rounding after every operation and with the infinities and NaN; the properties that a
  rounding or a division by zero decides are stated on it. Year counts and period
  lengths are Python integers (\<open>int\<close>); the loop variable \<open>month\<close> ranges over
  \<open>range(months)\<close> and is a \<open>nat\<close>.
\<close>

subsection \<open>Input: the \<open>data\<close> dictionary\<close>

text \<open>
  \<open>run_simulation\<close> reads fourteen keys of \<open>data\<close>; the record has one field per key,
  under the key's name. \<open>fixed_periods\<close> is the list of pairs (length in months, annual rate).
\<close>

record config =
  initial_mortgage :: real
  mortgage_term_years :: int
  fixed_periods :: "(int \<times> real) list"
  mortgage_rate_after_fixed :: real
  monthly_income :: real
  monthly_expenses :: real
  income_growth_rate :: real
  expense_growth_rate :: real
  initial_savings :: real
  savings_rate :: real
  savings_tax_rate :: real
  emergency_buffer :: real
  min_overpayment_threshold :: real
  total_years_to_simulate :: int

subsection \<open>Output: overpayment events and monthly rows\<close>

text \<open>
  The \<open>type\<close> string of an event is one of three formats; the datatype keeps the number
  that the source formats into the string (\<open>idx + 1\<close>, \<open>current_year + 1\<close>).
\<close>

datatype overpayment_type =
    End_of_fixed_period nat
  | Variable_rate_period
  | Annual_overpayment nat

record overpayment_event =
  ev_month :: nat
  ev_amount :: real
  ev_type :: overpayment_type

text \<open>
  The source appends to nine parallel lists at the end of every simulated month (lines
  408--416). A \<open>monthly_row\<close> is one position of those nine lists; the list of rows stands
  for the nine lists, which always have the same length.
\<close>

record monthly_row =
  row_mortgage_balance :: real
  row_savings_balance :: real
  row_total_overpayments_cumulative :: real
  row_year :: real
  row_monthly_income :: real
  row_monthly_expenses :: real
  row_overpayment :: real
  row_available_cash :: real
  row_mortgage_payment :: real

record sim_result =
  res_months_to_mortgage_free :: "nat option"
  res_total_interest_paid :: real
  interest_saved :: real
  final_savings :: real
  total_overpayments :: real
  res_rows :: "monthly_row list"
  res_overpayment_events :: "overpayment_event list"

subsection \<open>The local variables of \<open>run_simulation\<close>\<close>

text \<open>
  All locals of the function live in one flat scope and are carried from one iteration
  to the next; the state record holds them under their source names. The running copies
  of income and expenses are prefixed with \<open>cur_\<close>, since the configuration already
  owns the names \<open>monthly_income\<close> and \<open>monthly_expenses\<close>.
\<close>

record sim_state =
  mortgage_balance :: real
  cash_savings :: real
  cur_monthly_income :: real
  cur_monthly_expenses :: real
  standard_monthly_payment :: real
  total_interest_paid :: real
  months_to_mortgage_free :: "nat option"
  yearly_overpayment_limit :: real
  mortgage_paid_off :: bool
  overpayment_made_this_year :: bool
  current_year :: nat
  cumulative_overpayments :: real
  lump_sum :: real
  available_cash :: real
  end_of_fixed_period :: bool
  interest_payment :: real
  capital_repayment :: real
  current_overpayment :: real
  overpayment_events :: "overpayment_event list"
  rows :: "monthly_row list"

subsection \<open>The annuity payment\<close>

text \<open>
  Modelled from the spec: \<open>numpy_financial.pmt\<close> is a library function whose body is
  not among the sources. Section 4.2 of the specification gives its contract (the level
  payment that amortises the principal over the remaining term; \<open>principal / n\<close> at rate
  zero), which is the library's closed form with \<open>fv = 0\<close> and payments at the end of
  the period:
  \<^verbatim>\<open>
    temp = (1 + rate)**nper
    fact = nper                 if rate == 0
           (temp - 1) / rate    otherwise
    pmt  = -(pv * temp) / fact
  \<close>
  Where the library divides by zero it returns an IEEE infinity or NaN without raising.
  No real number stands for those, so \<open>pmt\<close> returns \<open>None\<close> there and the simulation
  built on it has no value in the exact model; the floating-point model has one.
\<close>

definition float_power :: "real \<Rightarrow> int \<Rightarrow> real option" where
  "float_power x n =
     (if 0 \<le> n then Some (x ^ nat n)
      else if x = 0 then None
      else Some (1 / x ^ nat (- n)))"

definition pmt :: "real \<Rightarrow> int \<Rightarrow> real \<Rightarrow> real option" where
  "pmt rate nper pv =
     (case float_power (1 + rate) nper of
        None \<Rightarrow> None
      | Some temp \<Rightarrow>
          (let fact = (if rate = 0 then of_int nper else (temp - 1) / rate)
           in if fact = 0 then None else Some (- (pv * temp) / fact)))"

subsection \<open>The rate schedule\<close>

text \<open>Lines 267--271: the periods laid end to end from month 0.\<close>

fun build_schedule :: "int \<Rightarrow> (int \<times> real) list \<Rightarrow> (int \<times> int \<times> real) list" where
  "build_schedule start_month [] = []"
| "build_schedule start_month ((period_length, rate) # rest) =
     (start_month, start_month + period_length, rate)
       # build_schedule (start_month + period_length) rest"

definition fixed_period_schedule :: "config \<Rightarrow> (int \<times> int \<times> real) list" where
  "fixed_period_schedule c = build_schedule 0 (fixed_periods c)"

text \<open>
  \<open>next((r for s, e, r in fixed_period_schedule if s <= month < e), default)\<close>,
  used at lines 352 and 375: the rate of the first period that contains the month.
\<close>

fun rate_in_force :: "(int \<times> int \<times> real) list \<Rightarrow> int \<Rightarrow> real \<Rightarrow> real" where
  "rate_in_force [] month dflt = dflt"
| "rate_in_force ((s, e, r) # rest) month dflt =
     (if s \<le> month \<and> month < e then r else rate_in_force rest month dflt)"

subsection \<open>Set-up (lines 258--301)\<close>

definition months :: "config \<Rightarrow> int" where
  "months c = total_years_to_simulate c * 12"

definition n_payments_total :: "config \<Rightarrow> int" where
  "n_payments_total c = mortgage_term_years c * 12"

definition monthly_savings_rate :: "config \<Rightarrow> real" where
  "monthly_savings_rate c = savings_rate c / 12"

definition current_rate :: "config \<Rightarrow> real" where
  "current_rate c =
     (case fixed_period_schedule c of
        [] \<Rightarrow> mortgage_rate_after_fixed c
      | (s, e, r) # rest \<Rightarrow> r)"

definition initial_payment :: "config \<Rightarrow> real option" where
  "initial_payment c = pmt (current_rate c / 12) (n_payments_total c) (- initial_mortgage c)"

definition initial_state :: "config \<Rightarrow> real \<Rightarrow> sim_state" where
  "initial_state c payment =
     \<lparr> mortgage_balance = initial_mortgage c,
       cash_savings = initial_savings c,
       cur_monthly_income = monthly_income c,
       cur_monthly_expenses = monthly_expenses c,
       standard_monthly_payment = payment,
       total_interest_paid = 0,
       months_to_mortgage_free = None,
       yearly_overpayment_limit = 0.10 * initial_mortgage c,
       mortgage_paid_off = False,
       overpayment_made_this_year = False,
       current_year = 0,
       cumulative_overpayments = 0,
       lump_sum = 0,
       available_cash = 0,
       end_of_fixed_period = False,
       interest_payment = 0,
       capital_repayment = 0,
       current_overpayment = 0,
       overpayment_events = [],
       rows = [] \<rparr>"

subsection \<open>One month of the loop body (lines 316--416)\<close>

text \<open>Lines 316--320.\<close>

definition reset_yearly_allowance :: "nat \<Rightarrow> sim_state \<Rightarrow> sim_state" where
  "reset_yearly_allowance month s =
     (if month mod 12 = 0
      then s\<lparr> yearly_overpayment_limit := 0.10 * mortgage_balance s,
              overpayment_made_this_year := False,
              current_year := month div 12 \<rparr>
      else s)"

text \<open>Lines 322--328.\<close>

definition apply_growth :: "config \<Rightarrow> nat \<Rightarrow> sim_state \<Rightarrow> sim_state" where
  "apply_growth c month s =
     (let s1 = (if month > 0 \<and> month mod 12 = 0
                then s\<lparr> cur_monthly_income := cur_monthly_income s * (1 + income_growth_rate c),
                        cur_monthly_expenses := cur_monthly_expenses s * (1 + expense_growth_rate c) \<rparr>
                else s)
      in s1\<lparr> available_cash := cur_monthly_income s1 - cur_monthly_expenses s1 \<rparr>)"

text \<open>
  Rule 1, lines 335--347: the sweep at the end of the fixed period with index \<open>idx\<close>.
\<close>

definition end_of_period_sweep :: "config \<Rightarrow> nat \<Rightarrow> nat \<Rightarrow> sim_state \<Rightarrow> sim_state" where
  "end_of_period_sweep c month idx s =
     (let s1 = s\<lparr> end_of_fixed_period := True,
                  lump_sum := max 0 (cash_savings s - emergency_buffer c) \<rparr>
      in if lump_sum s1 > 0
         then (let payment_to_mortgage = min (lump_sum s1) (mortgage_balance s1)
               in s1\<lparr> mortgage_balance := mortgage_balance s1 - payment_to_mortgage,
                       cash_savings := cash_savings s1 - payment_to_mortgage,
                       lump_sum := payment_to_mortgage,
                       cumulative_overpayments := cumulative_overpayments s1 + payment_to_mortgage,
                       overpayment_events := overpayment_events s1 @
                         [\<lparr> ev_month = month, ev_amount = payment_to_mortgage,
                            ev_type = End_of_fixed_period (idx + 1) \<rparr>],
                       overpayment_made_this_year := False \<rparr>)
         else s1)"

text \<open>Lines 349--354: the payment is recomputed when a balance is left.\<close>

definition update_payment :: "config \<Rightarrow> nat \<Rightarrow> sim_state \<Rightarrow> sim_state option" where
  "update_payment c month s =
     (if mortgage_balance s > 0
      then (let remaining_term = mortgage_term_years c * 12 - int month;
                next_rate = rate_in_force (fixed_period_schedule c) (int month)
                              (mortgage_rate_after_fixed c)
            in case pmt (next_rate / 12) remaining_term (- mortgage_balance s) of
                 None \<Rightarrow> None
               | Some p \<Rightarrow> Some (s\<lparr> standard_monthly_payment := p \<rparr>))
      else Some s)"

text \<open>
  Lines 332--355: the scan of the schedule. The first period whose end is this month
  runs the sweep and the payment update, and \<open>break\<close> leaves the scan.
\<close>

fun check_fixed_periods ::
  "config \<Rightarrow> nat \<Rightarrow> nat \<Rightarrow> (int \<times> int \<times> real) list \<Rightarrow> sim_state \<Rightarrow> sim_state option" where
  "check_fixed_periods c month idx [] s = Some s"
| "check_fixed_periods c month idx ((start_m, end_m, rate) # rest) s =
     (if int month = end_m
      then update_payment c month (end_of_period_sweep c month idx s)
      else check_fixed_periods c month (Suc idx) rest s)"

definition end_of_fixed_period_rule :: "config \<Rightarrow> nat \<Rightarrow> sim_state \<Rightarrow> sim_state option" where
  "end_of_fixed_period_rule c month s =
     check_fixed_periods c month 0 (fixed_period_schedule c)
       (s\<lparr> end_of_fixed_period := False \<rparr>)"

text \<open>Rule 2, lines 357--372.\<close>

definition variable_rate_rule :: "config \<Rightarrow> nat \<Rightarrow> sim_state \<Rightarrow> sim_state" where
  "variable_rate_rule c month s =
     (if \<not> end_of_fixed_period s \<and> fixed_period_schedule c \<noteq> []
      then (let last_fixed_period_end = fst (snd (last (fixed_period_schedule c)))
            in if int month > last_fixed_period_end
               then (let potential_lump_sum = max 0 (cash_savings s - emergency_buffer c)
                     in if potential_lump_sum \<ge> min_overpayment_threshold c
                        then (let payment_to_mortgage = min potential_lump_sum (mortgage_balance s)
                              in s\<lparr> mortgage_balance := mortgage_balance s - payment_to_mortgage,
                                     cash_savings := cash_savings s - payment_to_mortgage,
                                     lump_sum := payment_to_mortgage,
                                     cumulative_overpayments :=
                                       cumulative_overpayments s + payment_to_mortgage,
                                     overpayment_events := overpayment_events s @
                                       [\<lparr> ev_month = month, ev_amount = payment_to_mortgage,
                                          ev_type = Variable_rate_period \<rparr>] \<rparr>)
                        else s)
               else s)
      else s)"

text \<open>Lines 374--382: the scheduled payment.\<close>

definition regular_payment :: "config \<Rightarrow> nat \<Rightarrow> sim_state \<Rightarrow> sim_state" where
  "regular_payment c month s =
     (let applicable_rate = rate_in_force (fixed_period_schedule c) (int month)
                              (mortgage_rate_after_fixed c);
          interest = mortgage_balance s * (applicable_rate / 12);
          capital = standard_monthly_payment s - interest
      in s\<lparr> interest_payment := interest,
             capital_repayment := capital,
             mortgage_balance := mortgage_balance s - capital,
             total_interest_paid := total_interest_paid s + interest,
             available_cash := available_cash s - standard_monthly_payment s \<rparr>)"

text \<open>Rule 3, lines 384--400.\<close>

definition annual_rule :: "config \<Rightarrow> nat \<Rightarrow> sim_state \<Rightarrow> sim_state" where
  "annual_rule c month s0 =
     (let s = s0\<lparr> current_overpayment := 0 \<rparr>
      in if \<not> overpayment_made_this_year s \<and> cash_savings s > emergency_buffer c
         then (let spare_cash = cash_savings s - emergency_buffer c
               in if spare_cash \<ge> min_overpayment_threshold c
                  then (let potential_overpayment =
                              min spare_cash (min (yearly_overpayment_limit s) (mortgage_balance s))
                        in if potential_overpayment > 0
                           then s\<lparr> mortgage_balance := mortgage_balance s - potential_overpayment,
                                   cash_savings := cash_savings s - potential_overpayment,
                                   current_overpayment := potential_overpayment,
                                   cumulative_overpayments :=
                                     cumulative_overpayments s + potential_overpayment,
                                   overpayment_made_this_year := True,
                                   overpayment_events := overpayment_events s @
                                     [\<lparr> ev_month = month, ev_amount = potential_overpayment,
                                        ev_type = Annual_overpayment (current_year s + 1) \<rparr>] \<rparr>
                           else s)
                  else s)
         else s)"

text \<open>Lines 402--405.\<close>

definition handle_savings :: "config \<Rightarrow> sim_state \<Rightarrow> sim_state" where
  "handle_savings c s =
     (if available_cash s > 0
      then (let interest_earned =
                  cash_savings s * monthly_savings_rate c * (1 - savings_tax_rate c)
            in s\<lparr> cash_savings := cash_savings s + (interest_earned + available_cash s) \<rparr>)
      else s)"

text \<open>Lines 407--416.\<close>

definition track_progress :: "nat \<Rightarrow> sim_state \<Rightarrow> sim_state" where
  "track_progress month s =
     s\<lparr> rows := rows s @
         [\<lparr> row_mortgage_balance = mortgage_balance s,
            row_savings_balance = cash_savings s,
            row_total_overpayments_cumulative = cumulative_overpayments s,
            row_year = real month / 12,
            row_monthly_income = cur_monthly_income s,
            row_monthly_expenses = cur_monthly_expenses s,
            row_overpayment = current_overpayment s + lump_sum s,
            row_available_cash = available_cash s,
            row_mortgage_payment = capital_repayment s + interest_payment s \<rparr>] \<rparr>"

text \<open>
  The body of one iteration after the terminal check, in the order of the source. The
  three states named here are the ones the rules see: \<open>before_rules\<close> on entry to rule
  1, and \<open>before_annual\<close> on entry to rule 3.
\<close>

definition before_rules :: "config \<Rightarrow> nat \<Rightarrow> sim_state \<Rightarrow> sim_state" where
  "before_rules c month s = apply_growth c month (reset_yearly_allowance month s)"

definition before_annual :: "config \<Rightarrow> nat \<Rightarrow> sim_state \<Rightarrow> sim_state" where
  "before_annual c month s1 = regular_payment c month (variable_rate_rule c month s1)"

definition month_body :: "config \<Rightarrow> nat \<Rightarrow> sim_state \<Rightarrow> sim_state option" where
  "month_body c month s =
     (case end_of_fixed_period_rule c month (before_rules c month s) of
        None \<Rightarrow> None
      | Some s1 \<Rightarrow>
          Some (track_progress month
                 (handle_savings c (annual_rule c month (before_annual c month s1)))))"

subsection \<open>The loop and the result\<close>

text \<open>
  Lines 303--314: \<open>for month in range(months)\<close>, left by \<open>break\<close> once the balance is
  not positive at the top of a month. Nothing follows a \<open>break\<close>, so the rest of the
  month list is dropped.
\<close>

definition mark_paid_off :: "nat \<Rightarrow> sim_state \<Rightarrow> sim_state" where
  "mark_paid_off month s =
     s\<lparr> months_to_mortgage_free := Some month,
        mortgage_balance := 0,
        standard_monthly_payment := 0,
        mortgage_paid_off := True \<rparr>"

fun sim_loop :: "config \<Rightarrow> nat list \<Rightarrow> sim_state \<Rightarrow> sim_state option" where
  "sim_loop c [] s = Some s"
| "sim_loop c (month # rest) s =
     (if mortgage_paid_off s then Some s
      else if mortgage_balance s \<le> 0 then Some (mark_paid_off month (s\<lparr> lump_sum := 0 \<rparr>))
      else (case month_body c month (s\<lparr> lump_sum := 0 \<rparr>) of
              None \<Rightarrow> None
            | Some s1 \<Rightarrow> sim_loop c rest s1))"

text \<open>
  The state at the top of iteration \<open>m\<close>: the locals after the iterations for months
  \<open>0, \<dots>, m - 1\<close> (or after the \<open>break\<close>, when it came earlier).
\<close>

definition state_at :: "config \<Rightarrow> nat \<Rightarrow> sim_state option" where
  "state_at c m =
     (case initial_payment c of
        None \<Rightarrow> None
      | Some p \<Rightarrow> sim_loop c [0..<m] (initial_state c p))"

text \<open>Lines 418--426.\<close>

definition full_term_rate :: "config \<Rightarrow> real" where
  "full_term_rate c =
     (case fixed_periods c of
        [] \<Rightarrow> mortgage_rate_after_fixed c
      | (period_length, rate) # rest \<Rightarrow> rate)"

definition run_simulation :: "config \<Rightarrow> sim_result option" where
  "run_simulation c =
     (case state_at c (nat (months c)) of
        None \<Rightarrow> None
      | Some s \<Rightarrow>
          (case pmt (full_term_rate c / 12) (mortgage_term_years c * 12) (- initial_mortgage c) of
             None \<Rightarrow> None
           | Some full_term_payment \<Rightarrow>
               (let total_full_term_interest =
                      full_term_payment * of_int (mortgage_term_years c) * 12 - initial_mortgage c
                in Some \<lparr> res_months_to_mortgage_free = months_to_mortgage_free s,
                          res_total_interest_paid = total_interest_paid s,
                          interest_saved = total_full_term_interest - total_interest_paid s,
                          final_savings = cash_savings s,
                          total_overpayments = cumulative_overpayments s,
                          res_rows = rows s,
                          res_overpayment_events = overpayment_events s \<rparr>)))"

subsection \<open>The same function in floating-point arithmetic\<close>

text \<open>
  The definitions above compute with real numbers and have no value where the payment
  formula divides by zero. The source does neither: every operation rounds its result to
  a double, and a division by zero inside \<open>numpy_financial.pmt\<close> returns an infinity or a
  NaN with which the loop then goes on. The definitions of this subsection follow the
  source once more, statement by statement, in that arithmetic. They are total.

  A \<open>pyfloat\<close> is the value of a Python float: a finite number, one of the two
  infinities, or NaN. The two things the source takes from outside are parameters,
  collected in an \<open>arith\<close>:
  \<^item> \<open>rnd x\<close> is the float that an operation returns when its exact result is the real
    \<open>x\<close> (for IEEE doubles the nearest double to \<open>x\<close>, or an infinity on overflow);
  \<^item> \<open>npf_pmt rate nper pv\<close> is what the library call \<open>npf.pmt(rate, nper, pv)\<close> returns,
    whatever that is (finite, infinite or NaN).
  The entries of \<open>data\<close> are finite numbers, as in the exact model. A zero carries no
  sign here; the source never divides by a computed value outside \<open>npf.pmt\<close>, so the sign
  of a zero cannot show.
\<close>

datatype pyfloat = Fin real | PInf | NInf | NaN

record arith =
  rnd :: "real \<Rightarrow> pyfloat"
  npf_pmt :: "pyfloat \<Rightarrow> int \<Rightarrow> pyfloat \<Rightarrow> pyfloat"

text \<open>Unary minus, \<open>+\<close>, \<open>-\<close> and \<open>*\<close> on floats, by the IEEE rules for infinities and NaN.\<close>

fun fneg :: "pyfloat \<Rightarrow> pyfloat" where
  "fneg (Fin x) = Fin (- x)"
| "fneg PInf = NInf"
| "fneg NInf = PInf"
| "fneg NaN = NaN"

fun fadd :: "arith \<Rightarrow> pyfloat \<Rightarrow> pyfloat \<Rightarrow> pyfloat" where
  "fadd a (Fin x) (Fin y) = rnd a (x + y)"
| "fadd a NaN y = NaN"
| "fadd a x NaN = NaN"
| "fadd a PInf NInf = NaN"
| "fadd a NInf PInf = NaN"
| "fadd a PInf y = PInf"
| "fadd a x PInf = PInf"
| "fadd a NInf y = NInf"
| "fadd a x NInf = NInf"

definition fsub :: "arith \<Rightarrow> pyfloat \<Rightarrow> pyfloat \<Rightarrow> pyfloat" where
  "fsub a x y = fadd a x (fneg y)"

text \<open>\<open>inf_times pos x\<close>: the product of an infinity (positive iff \<open>pos\<close>) and the finite \<open>x\<close>.\<close>

definition inf_times :: "bool \<Rightarrow> real \<Rightarrow> pyfloat" where
  "inf_times pos x = (if x = 0 then NaN else if (0 < x) = pos then PInf else NInf)"

fun fmul :: "arith \<Rightarrow> pyfloat \<Rightarrow> pyfloat \<Rightarrow> pyfloat" where
  "fmul a (Fin x) (Fin y) = rnd a (x * y)"
| "fmul a NaN y = NaN"
| "fmul a x NaN = NaN"
| "fmul a PInf (Fin y) = inf_times True y"
| "fmul a NInf (Fin y) = inf_times False y"
| "fmul a (Fin x) PInf = inf_times True x"
| "fmul a (Fin x) NInf = inf_times False x"
| "fmul a PInf PInf = PInf"
| "fmul a NInf NInf = PInf"
| "fmul a PInf NInf = NInf"
| "fmul a NInf PInf = NInf"

text \<open>The comparisons \<open><\<close> and \<open><=\<close>; both are false as soon as one side is NaN.\<close>

fun flt :: "pyfloat \<Rightarrow> pyfloat \<Rightarrow> bool" where
  "flt (Fin x) (Fin y) = (x < y)"
| "flt NaN y = False"
| "flt x NaN = False"
| "flt x NInf = False"
| "flt PInf y = False"
| "flt NInf y = True"
| "flt x PInf = True"

fun fle :: "pyfloat \<Rightarrow> pyfloat \<Rightarrow> bool" where
  "fle (Fin x) (Fin y) = (x \<le> y)"
| "fle NaN y = False"
| "fle x NaN = False"
| "fle NInf y = True"
| "fle x PInf = True"
| "fle x NInf = False"
| "fle PInf y = False"

text \<open>
  Python's \<open>min(a, b)\<close> and \<open>max(a, b)\<close> keep the first argument unless the second is
  strictly smaller (larger); \<open>min(a, b, c)\<close> is \<open>min(min(a, b), c)\<close>.
\<close>

definition py_min :: "pyfloat \<Rightarrow> pyfloat \<Rightarrow> pyfloat" where
  "py_min x y = (if flt y x then y else x)"

definition py_max :: "pyfloat \<Rightarrow> pyfloat \<Rightarrow> pyfloat" where
  "py_max x y = (if flt x y then y else x)"

text \<open>The output and the locals, as before, with float entries.\<close>

record overpayment_event_fl =
  ev_month_fl :: nat
  ev_amount_fl :: pyfloat
  ev_type_fl :: overpayment_type

record monthly_row_fl =
  row_mortgage_balance_fl :: pyfloat
  row_savings_balance_fl :: pyfloat
  row_total_overpayments_cumulative_fl :: pyfloat
  row_year_fl :: pyfloat
  row_monthly_income_fl :: pyfloat
  row_monthly_expenses_fl :: pyfloat
  row_overpayment_fl :: pyfloat
  row_available_cash_fl :: pyfloat
  row_mortgage_payment_fl :: pyfloat

record sim_result_fl =
  res_months_to_mortgage_free_fl :: "nat option"
  res_total_interest_paid_fl :: pyfloat
  interest_saved_fl :: pyfloat
  final_savings_fl :: pyfloat
  total_overpayments_fl :: pyfloat
  res_rows_fl :: "monthly_row_fl list"
  res_overpayment_events_fl :: "overpayment_event_fl list"

record sim_state_fl =
  mortgage_balance_fl :: pyfloat
  cash_savings_fl :: pyfloat
  cur_monthly_income_fl :: pyfloat
  cur_monthly_expenses_fl :: pyfloat
  standard_monthly_payment_fl :: pyfloat
  total_interest_paid_fl :: pyfloat
  months_to_mortgage_free_fl :: "nat option"
  yearly_overpayment_limit_fl :: pyfloat
  mortgage_paid_off_fl :: bool
  overpayment_made_this_year_fl :: bool
  current_year_fl :: nat
  cumulative_overpayments_fl :: pyfloat
  lump_sum_fl :: pyfloat
  available_cash_fl :: pyfloat
  end_of_fixed_period_fl :: bool
  interest_payment_fl :: pyfloat
  capital_repayment_fl :: pyfloat
  current_overpayment_fl :: pyfloat
  overpayment_events_fl :: "overpayment_event_fl list"
  rows_fl :: "monthly_row_fl list"

text \<open>Lines 258--301. The schedule and the term are integer arithmetic, shared with the exact model.\<close>

definition initial_payment_fl :: "arith \<Rightarrow> config \<Rightarrow> pyfloat" where
  "initial_payment_fl a c =
     npf_pmt a (rnd a (current_rate c / 12)) (n_payments_total c) (fneg (Fin (initial_mortgage c)))"

definition initial_state_fl :: "arith \<Rightarrow> config \<Rightarrow> sim_state_fl" where
  "initial_state_fl a c =
     \<lparr> mortgage_balance_fl = Fin (initial_mortgage c),
       cash_savings_fl = Fin (initial_savings c),
       cur_monthly_income_fl = Fin (monthly_income c),
       cur_monthly_expenses_fl = Fin (monthly_expenses c),
       standard_monthly_payment_fl = initial_payment_fl a c,
       total_interest_paid_fl = Fin 0,
       months_to_mortgage_free_fl = None,
       yearly_overpayment_limit_fl = fmul a (rnd a 0.10) (Fin (initial_mortgage c)),
       mortgage_paid_off_fl = False,
       overpayment_made_this_year_fl = False,
       current_year_fl = 0,
       cumulative_overpayments_fl = Fin 0,
       lump_sum_fl = Fin 0,
       available_cash_fl = Fin 0,
       end_of_fixed_period_fl = False,
       interest_payment_fl = Fin 0,
       capital_repayment_fl = Fin 0,
       current_overpayment_fl = Fin 0,
       overpayment_events_fl = [],
       rows_fl = [] \<rparr>"

text \<open>Lines 316--328.\<close>

definition reset_yearly_allowance_fl :: "arith \<Rightarrow> nat \<Rightarrow> sim_state_fl \<Rightarrow> sim_state_fl" where
  "reset_yearly_allowance_fl a month s =
     (if month mod 12 = 0
      then s\<lparr> yearly_overpayment_limit_fl := fmul a (rnd a 0.10) (mortgage_balance_fl s),
              overpayment_made_this_year_fl := False,
              current_year_fl := month div 12 \<rparr>
      else s)"

definition apply_growth_fl :: "arith \<Rightarrow> config \<Rightarrow> nat \<Rightarrow> sim_state_fl \<Rightarrow> sim_state_fl" where
  "apply_growth_fl a c month s =
     (let s1 = (if month > 0 \<and> month mod 12 = 0
                then s\<lparr> cur_monthly_income_fl :=
                          fmul a (cur_monthly_income_fl s) (rnd a (1 + income_growth_rate c)),
                        cur_monthly_expenses_fl :=
                          fmul a (cur_monthly_expenses_fl s) (rnd a (1 + expense_growth_rate c)) \<rparr>
                else s)
      in s1\<lparr> available_cash_fl := fsub a (cur_monthly_income_fl s1) (cur_monthly_expenses_fl s1) \<rparr>)"

text \<open>Rule 1, lines 335--347.\<close>

definition end_of_period_sweep_fl ::
  "arith \<Rightarrow> config \<Rightarrow> nat \<Rightarrow> nat \<Rightarrow> sim_state_fl \<Rightarrow> sim_state_fl" where
  "end_of_period_sweep_fl a c month idx s =
     (let s1 = s\<lparr> end_of_fixed_period_fl := True,
                  lump_sum_fl := py_max (Fin 0) (fsub a (cash_savings_fl s) (Fin (emergency_buffer c))) \<rparr>
      in if flt (Fin 0) (lump_sum_fl s1)
         then (let payment_to_mortgage = py_min (lump_sum_fl s1) (mortgage_balance_fl s1)
               in s1\<lparr> mortgage_balance_fl := fsub a (mortgage_balance_fl s1) payment_to_mortgage,
                       cash_savings_fl := fsub a (cash_savings_fl s1) payment_to_mortgage,
                       lump_sum_fl := payment_to_mortgage,
                       cumulative_overpayments_fl :=
                         fadd a (cumulative_overpayments_fl s1) payment_to_mortgage,
                       overpayment_events_fl := overpayment_events_fl s1 @
                         [\<lparr> ev_month_fl = month, ev_amount_fl = payment_to_mortgage,
                            ev_type_fl = End_of_fixed_period (idx + 1) \<rparr>],
                       overpayment_made_this_year_fl := False \<rparr>)
         else s1)"

text \<open>Lines 349--354.\<close>

definition update_payment_fl :: "arith \<Rightarrow> config \<Rightarrow> nat \<Rightarrow> sim_state_fl \<Rightarrow> sim_state_fl" where
  "update_payment_fl a c month s =
     (if flt (Fin 0) (mortgage_balance_fl s)
      then (let remaining_term = mortgage_term_years c * 12 - int month;
                next_rate = rate_in_force (fixed_period_schedule c) (int month)
                              (mortgage_rate_after_fixed c)
            in s\<lparr> standard_monthly_payment_fl :=
                     npf_pmt a (rnd a (next_rate / 12)) remaining_term
                       (fneg (mortgage_balance_fl s)) \<rparr>)
      else s)"

text \<open>Lines 332--355.\<close>

fun check_fixed_periods_fl ::
  "arith \<Rightarrow> config \<Rightarrow> nat \<Rightarrow> nat \<Rightarrow> (int \<times> int \<times> real) list \<Rightarrow> sim_state_fl \<Rightarrow> sim_state_fl" where
  "check_fixed_periods_fl a c month idx [] s = s"
| "check_fixed_periods_fl a c month idx ((start_m, end_m, rate) # rest) s =
     (if int month = end_m
      then update_payment_fl a c month (end_of_period_sweep_fl a c month idx s)
      else check_fixed_periods_fl a c month (Suc idx) rest s)"

definition end_of_fixed_period_rule_fl ::
  "arith \<Rightarrow> config \<Rightarrow> nat \<Rightarrow> sim_state_fl \<Rightarrow> sim_state_fl" where
  "end_of_fixed_period_rule_fl a c month s =
     check_fixed_periods_fl a c month 0 (fixed_period_schedule c)
       (s\<lparr> end_of_fixed_period_fl := False \<rparr>)"

text \<open>Rule 2, lines 357--372.\<close>

definition variable_rate_rule_fl :: "arith \<Rightarrow> config \<Rightarrow> nat \<Rightarrow> sim_state_fl \<Rightarrow> sim_state_fl" where
  "variable_rate_rule_fl a c month s =
     (if \<not> end_of_fixed_period_fl s \<and> fixed_period_schedule c \<noteq> []
      then (let last_fixed_period_end = fst (snd (last (fixed_period_schedule c)))
            in if int month > last_fixed_period_end
               then (let potential_lump_sum =
                           py_max (Fin 0) (fsub a (cash_savings_fl s) (Fin (emergency_buffer c)))
                     in if fle (Fin (min_overpayment_threshold c)) potential_lump_sum
                        then (let payment_to_mortgage =
                                    py_min potential_lump_sum (mortgage_balance_fl s)
                              in s\<lparr> mortgage_balance_fl :=
                                       fsub a (mortgage_balance_fl s) payment_to_mortgage,
                                     cash_savings_fl := fsub a (cash_savings_fl s) payment_to_mortgage,
                                     lump_sum_fl := payment_to_mortgage,
                                     cumulative_overpayments_fl :=
                                       fadd a (cumulative_overpayments_fl s) payment_to_mortgage,
                                     overpayment_events_fl := overpayment_events_fl s @
                                       [\<lparr> ev_month_fl = month, ev_amount_fl = payment_to_mortgage,
                                          ev_type_fl = Variable_rate_period \<rparr>] \<rparr>)
                        else s)
               else s)
      else s)"

text \<open>Lines 374--382.\<close>

definition regular_payment_fl :: "arith \<Rightarrow> config \<Rightarrow> nat \<Rightarrow> sim_state_fl \<Rightarrow> sim_state_fl" where
  "regular_payment_fl a c month s =
     (let applicable_rate = rate_in_force (fixed_period_schedule c) (int month)
                              (mortgage_rate_after_fixed c);
          interest = fmul a (mortgage_balance_fl s) (rnd a (applicable_rate / 12));
          capital = fsub a (standard_monthly_payment_fl s) interest
      in s\<lparr> interest_payment_fl := interest,
             capital_repayment_fl := capital,
             mortgage_balance_fl := fsub a (mortgage_balance_fl s) capital,
             total_interest_paid_fl := fadd a (total_interest_paid_fl s) interest,
             available_cash_fl := fsub a (available_cash_fl s) (standard_monthly_payment_fl s) \<rparr>)"

text \<open>Rule 3, lines 384--400.\<close>

definition annual_rule_fl :: "arith \<Rightarrow> config \<Rightarrow> nat \<Rightarrow> sim_state_fl \<Rightarrow> sim_state_fl" where
  "annual_rule_fl a c month s0 =
     (let s = s0\<lparr> current_overpayment_fl := Fin 0 \<rparr>
      in if \<not> overpayment_made_this_year_fl s \<and> flt (Fin (emergency_buffer c)) (cash_savings_fl s)
         then (let spare_cash = fsub a (cash_savings_fl s) (Fin (emergency_buffer c))
               in if fle (Fin (min_overpayment_threshold c)) spare_cash
                  then (let potential_overpayment =
                              py_min (py_min spare_cash (yearly_overpayment_limit_fl s))
                                (mortgage_balance_fl s)
                        in if flt (Fin 0) potential_overpayment
                           then s\<lparr> mortgage_balance_fl :=
                                     fsub a (mortgage_balance_fl s) potential_overpayment,
                                   cash_savings_fl := fsub a (cash_savings_fl s) potential_overpayment,
                                   current_overpayment_fl := potential_overpayment,
                                   cumulative_overpayments_fl :=
                                     fadd a (cumulative_overpayments_fl s) potential_overpayment,
                                   overpayment_made_this_year_fl := True,
                                   overpayment_events_fl := overpayment_events_fl s @
                                     [\<lparr> ev_month_fl = month, ev_amount_fl = potential_overpayment,
                                        ev_type_fl = Annual_overpayment (current_year_fl s + 1) \<rparr>] \<rparr>
                           else s)
                  else s)
         else s)"

text \<open>Lines 402--405.\<close>

definition handle_savings_fl :: "arith \<Rightarrow> config \<Rightarrow> sim_state_fl \<Rightarrow> sim_state_fl" where
  "handle_savings_fl a c s =
     (if flt (Fin 0) (available_cash_fl s)
      then (let interest_earned =
                  fmul a (fmul a (cash_savings_fl s) (rnd a (savings_rate c / 12)))
                    (rnd a (1 - savings_tax_rate c))
            in s\<lparr> cash_savings_fl :=
                     fadd a (cash_savings_fl s) (fadd a interest_earned (available_cash_fl s)) \<rparr>)
      else s)"

text \<open>Lines 407--416.\<close>

definition track_progress_fl :: "arith \<Rightarrow> nat \<Rightarrow> sim_state_fl \<Rightarrow> sim_state_fl" where
  "track_progress_fl a month s =
     s\<lparr> rows_fl := rows_fl s @
         [\<lparr> row_mortgage_balance_fl = mortgage_balance_fl s,
            row_savings_balance_fl = cash_savings_fl s,
            row_total_overpayments_cumulative_fl = cumulative_overpayments_fl s,
            row_year_fl = rnd a (real month / 12),
            row_monthly_income_fl = cur_monthly_income_fl s,
            row_monthly_expenses_fl = cur_monthly_expenses_fl s,
            row_overpayment_fl = fadd a (current_overpayment_fl s) (lump_sum_fl s),
            row_available_cash_fl = available_cash_fl s,
            row_mortgage_payment_fl = fadd a (capital_repayment_fl s) (interest_payment_fl s) \<rparr>] \<rparr>"

text \<open>One iteration after the terminal check, and the loop (lines 303--416).\<close>

definition month_body_fl :: "arith \<Rightarrow> config \<Rightarrow> nat \<Rightarrow> sim_state_fl \<Rightarrow> sim_state_fl" where
  "month_body_fl a c month s =
     track_progress_fl a month
       (handle_savings_fl a c
         (annual_rule_fl a c month
           (regular_payment_fl a c month
             (variable_rate_rule_fl a c month
               (end_of_fixed_period_rule_fl a c month
                 (apply_growth_fl a c month (reset_yearly_allowance_fl a month s)))))))"

definition mark_paid_off_fl :: "nat \<Rightarrow> sim_state_fl \<Rightarrow> sim_state_fl" where
  "mark_paid_off_fl month s =
     s\<lparr> months_to_mortgage_free_fl := Some month,
        mortgage_balance_fl := Fin 0,
        standard_monthly_payment_fl := Fin 0,
        mortgage_paid_off_fl := True \<rparr>"

fun sim_loop_fl :: "arith \<Rightarrow> config \<Rightarrow> nat list \<Rightarrow> sim_state_fl \<Rightarrow> sim_state_fl" where
  "sim_loop_fl a c [] s = s"
| "sim_loop_fl a c (month # rest) s =
     (if mortgage_paid_off_fl s then s
      else if fle (mortgage_balance_fl s) (Fin 0)
           then mark_paid_off_fl month (s\<lparr> lump_sum_fl := Fin 0 \<rparr>)
           else sim_loop_fl a c rest (month_body_fl a c month (s\<lparr> lump_sum_fl := Fin 0 \<rparr>)))"

text \<open>Lines 418--444.\<close>

definition run_simulation_fl :: "arith \<Rightarrow> config \<Rightarrow> sim_result_fl" where
  "run_simulation_fl a c =
     (let s = sim_loop_fl a c [0..<nat (months c)] (initial_state_fl a c);
          full_term_payment =
            npf_pmt a (rnd a (full_term_rate c / 12)) (mortgage_term_years c * 12)
              (fneg (Fin (initial_mortgage c)));
          total_full_term_interest =
            fsub a (fmul a (fmul a full_term_payment (Fin (of_int (mortgage_term_years c)))) (Fin 12))
              (Fin (initial_mortgage c))
      in \<lparr> res_months_to_mortgage_free_fl = months_to_mortgage_free_fl s,
           res_total_interest_paid_fl = total_interest_paid_fl s,
           interest_saved_fl = fsub a total_full_term_interest (total_interest_paid_fl s),
           final_savings_fl = cash_savings_fl s,
           total_overpayments_fl = cumulative_overpayments_fl s,
           res_rows_fl = rows_fl s,
           res_overpayment_events_fl = overpayment_events_fl s \<rparr>)"

subsection \<open>Notions used in the statements and proofs\<close>

text \<open>The sum of the amounts of a list of logged events.\<close>

definition logged_amounts :: "overpayment_event list \<Rightarrow> real" where
  "logged_amounts es = sum_list (map ev_amount es)"

text \<open>
  \<open>extends_log m s s'\<close>: going from \<open>s\<close> to \<open>s'\<close> only appends events to the log, all
  of them dated month \<open>m\<close>, and raises the cumulative total by their amounts.
\<close>

definition extends_log :: "nat \<Rightarrow> sim_state \<Rightarrow> sim_state \<Rightarrow> bool" where
  "extends_log m s s' \<longleftrightarrow>
     (\<exists>new. overpayment_events s' = overpayment_events s @ new \<and>
            (\<forall>e \<in> set new. ev_month e = m) \<and>
            cumulative_overpayments s' = cumulative_overpayments s + logged_amounts new)"

definition cumulative_matches_log :: "sim_state \<Rightarrow> bool" where
  "cumulative_matches_log s \<longleftrightarrow>
     cumulative_overpayments s = logged_amounts (overpayment_events s) \<and>
     (\<forall>i < length (rows s).
        row_total_overpayments_cumulative (rows s ! i) =
          logged_amounts (filter (\<lambda>e. ev_month e \<le> i) (overpayment_events s)))"

definition log_inv :: "nat \<Rightarrow> sim_state \<Rightarrow> bool" where
  "log_inv m s \<longleftrightarrow>
     length (rows s) = m \<and> (\<forall>e \<in> set (overpayment_events s). ev_month e < m) \<and>
     cumulative_matches_log s"

subsection \<open>Concrete configurations\<close>

text \<open>
  \<open>cfg_sweep\<close>: a loan of 6000 over five years at rate zero throughout (payment 100 a
  month), one fixed period of a single month, savings far above the emergency buffer.
  Every value lies in the range the input form of \<open>main\<close> accepts.
\<close>

definition cfg_sweep :: config where
  "cfg_sweep =
     \<lparr> initial_mortgage = 6000, mortgage_term_years = 5, fixed_periods = [(1, 0)],
       mortgage_rate_after_fixed = 0, monthly_income = 1000, monthly_expenses = 500,
       income_growth_rate = 0, expense_growth_rate = 0, initial_savings = 100000,
       savings_rate = 0, savings_tax_rate = 0, emergency_buffer = 1000,
       min_overpayment_threshold = 500, total_years_to_simulate = 5 \<rparr>"

text \<open>What \<open>run_simulation\<close> returns on \<open>cfg_sweep\<close>.\<close>

definition cfg_sweep_result :: sim_result where
  "cfg_sweep_result =
     \<lparr> res_months_to_mortgage_free = Some 2,
       res_total_interest_paid = 0,
       interest_saved = 0,
       final_savings = 94900,
       total_overpayments = 5900,
       res_rows =
         [\<lparr> row_mortgage_balance = 5300, row_savings_balance = 99800,
            row_total_overpayments_cumulative = 600, row_year = 0,
            row_monthly_income = 1000, row_monthly_expenses = 500,
            row_overpayment = 600, row_available_cash = 400,
            row_mortgage_payment = 100 \<rparr>,
          \<lparr> row_mortgage_balance = - 100, row_savings_balance = 94900,
            row_total_overpayments_cumulative = 5900, row_year = 1 / 12,
            row_monthly_income = 1000, row_monthly_expenses = 500,
            row_overpayment = 5300, row_available_cash = 400,
            row_mortgage_payment = 100 \<rparr>],
       res_overpayment_events =
         [\<lparr> ev_month = 0, ev_amount = 600, ev_type = Annual_overpayment 1 \<rparr>,
          \<lparr> ev_month = 1, ev_amount = 5300, ev_type = End_of_fixed_period 1 \<rparr>] \<rparr>"

text \<open>
  \<open>cfg_deficit\<close>: the same loan with expenses equal to income, so that every month's net
  available cash is the negated payment, and with no savings.
\<close>

definition cfg_deficit :: config where
  "cfg_deficit =
     \<lparr> initial_mortgage = 6000, mortgage_term_years = 5, fixed_periods = [(1, 0)],
       mortgage_rate_after_fixed = 0, monthly_income = 1000, monthly_expenses = 1000,
       income_growth_rate = 0, expense_growth_rate = 0, initial_savings = 0,
       savings_rate = 0, savings_tax_rate = 0, emergency_buffer = 1000,
       min_overpayment_threshold = 500, total_years_to_simulate = 5 \<rparr>"

text \<open>
  \<open>cfg_negative_rate\<close>: the same loan with no fixed period and a variable rate of minus
  twelve per cent a year.
\<close>

definition cfg_negative_rate :: config where
  "cfg_negative_rate =
     \<lparr> initial_mortgage = 6000, mortgage_term_years = 5, fixed_periods = [],
       mortgage_rate_after_fixed = - 12 / 100, monthly_income = 1000, monthly_expenses = 500,
       income_growth_rate = 0, expense_growth_rate = 0, initial_savings = 100000,
       savings_rate = 0, savings_tax_rate = 0, emergency_buffer = 1000,
       min_overpayment_threshold = 500, total_years_to_simulate = 5 \<rparr>"


text \<open>
  \<open>logged_ok s s'\<close>: the step from \<open>s\<close> to \<open>s'\<close> logs nothing, or it logs exactly one
  event, whose amount is positive and at most the balance outstanding in \<open>s\<close>.
\<close>

definition logged_ok :: "sim_state \<Rightarrow> sim_state \<Rightarrow> bool" where
  "logged_ok s s' \<longleftrightarrow>
     overpayment_events s' = overpayment_events s \<or>
     (overpayment_events s' = overpayment_events s @ [last (overpayment_events s')] \<and>
      0 < ev_amount (last (overpayment_events s')) \<and>
      ev_amount (last (overpayment_events s')) \<le> mortgage_balance s)"

definition positive_log :: "sim_state \<Rightarrow> bool" where
  "positive_log s \<longleftrightarrow> (\<forall>e \<in> set (overpayment_events s). 0 < ev_amount e)"

text \<open>
  \<open>floor_kept c s s'\<close>: the step from \<open>s\<close> to \<open>s'\<close> leaves the savings as they were, or
  leaves at least the emergency buffer.
\<close>

definition floor_kept :: "config \<Rightarrow> sim_state \<Rightarrow> sim_state \<Rightarrow> bool" where
  "floor_kept c s s' \<longleftrightarrow>
     cash_savings s' = cash_savings s \<or> emergency_buffer c \<le> cash_savings s'"

definition savings_inputs_ok :: "config \<Rightarrow> bool" where
  "savings_inputs_ok c \<longleftrightarrow>
     0 \<le> initial_savings c \<and> 0 \<le> emergency_buffer c \<and>
     0 \<le> savings_rate c \<and> savings_tax_rate c \<le> 1"

definition savings_never_negative :: "sim_state \<Rightarrow> bool" where
  "savings_never_negative s \<longleftrightarrow>
     0 \<le> cash_savings s \<and> (\<forall>row \<in> set (rows s). 0 \<le> row_savings_balance row)"

text \<open>
  \<open>cfg_zero_threshold\<close>: \<open>cfg_deficit\<close> with a minimum overpayment threshold of 0.
  \<open>cfg_negative_buffer\<close>: \<open>cfg_deficit\<close> with an emergency buffer of \<open>- 1000\<close>.
\<close>

definition cfg_zero_threshold :: config where
  "cfg_zero_threshold = cfg_deficit\<lparr> min_overpayment_threshold := 0 \<rparr>"

definition cfg_negative_buffer :: config where
  "cfg_negative_buffer = cfg_deficit\<lparr> emergency_buffer := - 1000 \<rparr>"

text \<open>
  The events of calendar year \<open>k\<close> (months \<open>12k \<dots> 12k + 11\<close>) by rule: the total
  logged by the annual rule, and the number of end-of-fixed-period sweeps.
\<close>

definition is_annual :: "overpayment_event \<Rightarrow> bool" where
  "is_annual e = (case ev_type e of Annual_overpayment y \<Rightarrow> True | _ \<Rightarrow> False)"

definition is_period_end :: "overpayment_event \<Rightarrow> bool" where
  "is_period_end e = (case ev_type e of End_of_fixed_period i \<Rightarrow> True | _ \<Rightarrow> False)"

definition annual_total :: "nat \<Rightarrow> overpayment_event list \<Rightarrow> real" where
  "annual_total k es =
     logged_amounts (filter (\<lambda>e. is_annual e \<and> ev_month e div 12 = k) es)"

definition sweep_count :: "nat \<Rightarrow> overpayment_event list \<Rightarrow> nat" where
  "sweep_count k es = length (filter (\<lambda>e. is_period_end e \<and> ev_month e div 12 = k) es)"

text \<open>
  What is left of the allowance \<open>L\<close> in year \<open>k\<close> when every sweep of the year, and the
  flag \<open>overpayment_made_this_year\<close> when set, is counted as one allowance granted.
\<close>

definition allowance_slack :: "nat \<Rightarrow> real \<Rightarrow> sim_state \<Rightarrow> real" where
  "allowance_slack k L s =
     (real (sweep_count k (overpayment_events s)) +
        (if overpayment_made_this_year s then 1 else 0)) * L
     - annual_total k (overpayment_events s)"

definition year_inv :: "nat \<Rightarrow> real \<Rightarrow> sim_state \<Rightarrow> nat \<Rightarrow> sim_state \<Rightarrow> bool" where
  "year_inv k L s0 m t \<longleftrightarrow>
     (m = 12 * k \<longrightarrow> t = s0) \<and>
     (12 * k < m \<longrightarrow>
        annual_total k (overpayment_events t) \<le>
          (real (sweep_count k (overpayment_events t)) + 1) * L \<and>
        (m < 12 * k + 12 \<longrightarrow>
           yearly_overpayment_limit t = L \<and> 0 \<le> allowance_slack k L t))"

definition year_bound :: "nat \<Rightarrow> real \<Rightarrow> sim_state \<Rightarrow> bool" where
  "year_bound k L t \<longleftrightarrow>
     annual_total k (overpayment_events t) \<le>
       (real (sweep_count k (overpayment_events t)) + 1) * L"

definition cfg_two_periods :: config where
  "cfg_two_periods =
     \<lparr> initial_mortgage = 12000, mortgage_term_years = 5, fixed_periods = [(6, 0), (6, 0)],
       mortgage_rate_after_fixed = 0, monthly_income = 1000, monthly_expenses = 500,
       income_growth_rate = 0, expense_growth_rate = 0, initial_savings = 2980,
       savings_rate = 0, savings_tax_rate = 0, emergency_buffer = 1000,
       min_overpayment_threshold = 500, total_years_to_simulate = 5 \<rparr>"

subsection \<open>Notions for the floating-point model\<close>

text \<open>
  \<open>contiguous_from start sched\<close>: the periods of \<open>sched\<close> lie end to end from month
  \<open>start\<close>, each one starting in the month in which the previous one ends.
\<close>

fun contiguous_from :: "int \<Rightarrow> (int \<times> int \<times> real) list \<Rightarrow> bool" where
  "contiguous_from start [] = True"
| "contiguous_from start ((s, e, r) # rest) = (s = start \<and> contiguous_from e rest)"

text \<open>
  Two instances of the arithmetic, each for a library call \<open>p\<close>. \<open>exact_arith\<close> does not
  round. \<open>double_arith\<close> rounds as IEEE binary64 does: to the nearest number with a
  53-bit significand, ties to the even one, with the exponent no smaller than that of
  the subnormal numbers; a result of magnitude \<open>2 ^ 1024\<close> or more is an infinity.
\<close>

definition exact_arith :: "(pyfloat \<Rightarrow> int \<Rightarrow> pyfloat \<Rightarrow> pyfloat) \<Rightarrow> arith" where
  "exact_arith p = \<lparr> rnd = Fin, npf_pmt = p \<rparr>"

definition pow2 :: "int \<Rightarrow> real" where
  "pow2 e = (if 0 \<le> e then 2 ^ nat e else 1 / 2 ^ nat (- e))"

definition round_half_even :: "real \<Rightarrow> int" where
  "round_half_even x =
     (let n = \<lfloor>x\<rfloor>
      in if x - of_int n < 1 / 2 then n
         else if 1 / 2 < x - of_int n then n + 1
         else if even n then n else n + 1)"

definition round_double :: "real \<Rightarrow> real" where
  "round_double x =
     (if x = 0 then 0
      else (let e = max (\<lfloor>log 2 \<bar>x\<bar>\<rfloor> - 52) (- 1074)
            in of_int (round_half_even (x / pow2 e)) * pow2 e))"

definition double_rnd :: "real \<Rightarrow> pyfloat" where
  "double_rnd x =
     (let r = round_double x
      in if \<bar>r\<bar> < 2 ^ 1024 then Fin r else if 0 < x then PInf else NInf)"

definition double_arith :: "(pyfloat \<Rightarrow> int \<Rightarrow> pyfloat \<Rightarrow> pyfloat) \<Rightarrow> arith" where
  "double_arith p = \<lparr> rnd = double_rnd, npf_pmt = p \<rparr>"

text \<open>
  \<open>inf_payment\<close>: a library call that returns \<open>+inf\<close>, which is what \<open>npf.pmt\<close> returns
  for a positive principal at rate 0 over a term of 0 months (\<open>principal / 0\<close>).
  \<open>cfg_zero_term\<close> is \<open>cfg_sweep\<close> with a term of 0 years.
\<close>

definition inf_payment :: "pyfloat \<Rightarrow> int \<Rightarrow> pyfloat \<Rightarrow> pyfloat" where
  "inf_payment rate nper pv = PInf"

definition cfg_zero_term :: config where
  "cfg_zero_term = cfg_sweep\<lparr> mortgage_term_years := 0 \<rparr>"

text \<open>
  \<open>rounds_with a f M\<close>: below the overflow threshold \<open>M\<close> the operations of \<open>a\<close> return
  the finite float \<open>f x\<close> for the exact result \<open>x\<close>, and the rounding \<open>f\<close> is monotone
  and keeps zero. IEEE rounding to nearest is of this kind, with \<open>M\<close> the largest double.

  \<open>savings_in_range f M c sv\<close>: the savings balance \<open>sv\<close> is a float (rounding leaves it
  as it is), and neither it, nor its distance to the emergency buffer, nor the buffer
  as the two subtractions of a rule reproduce it, exceeds the threshold.
\<close>

definition rounds_with :: "arith \<Rightarrow> (real \<Rightarrow> real) \<Rightarrow> real \<Rightarrow> bool" where
  "rounds_with a f M \<longleftrightarrow>
     (\<forall>x. \<bar>x\<bar> \<le> M \<longrightarrow> rnd a x = Fin (f x)) \<and> (\<forall>x y. x \<le> y \<longrightarrow> f x \<le> f y) \<and> f 0 = 0"

definition savings_in_range :: "(real \<Rightarrow> real) \<Rightarrow> real \<Rightarrow> config \<Rightarrow> real \<Rightarrow> bool" where
  "savings_in_range f M c sv \<longleftrightarrow>
     f sv = sv \<and> \<bar>sv\<bar> \<le> M \<and> \<bar>sv - emergency_buffer c\<bar> \<le> M \<and>
     \<bar>sv - f (sv - emergency_buffer c)\<bar> \<le> M"

text \<open>
  \<open>floor_kept_fl f c s s'\<close>: the step from \<open>s\<close> to \<open>s'\<close> leaves the savings \<open>sv\<close> as they
  were, or it lowers them to no less than \<open>f (sv - f (sv - buffer))\<close>, which is the
  emergency buffer when the rounding \<open>f\<close> is exact on the two subtractions, and to no
  less than 0 when the buffer and \<open>sv\<close> are not negative.
\<close>

definition floor_kept_fl :: "(real \<Rightarrow> real) \<Rightarrow> config \<Rightarrow> sim_state_fl \<Rightarrow> sim_state_fl \<Rightarrow> bool" where
  "floor_kept_fl f c s s' \<longleftrightarrow>
     (\<exists>sv sv'. cash_savings_fl s = Fin sv \<and> cash_savings_fl s' = Fin sv' \<and>
        (sv' = sv \<or>
         (sv' \<le> sv \<and> f (sv - f (sv - emergency_buffer c)) \<le> sv' \<and>
          (0 \<le> emergency_buffer c \<and> 0 \<le> sv \<longrightarrow> 0 \<le> sv'))))"

text \<open>
  \<open>cfg_rounding\<close>: \<open>cfg_sweep\<close> with an emergency buffer of \<open>3303.2999999999997\<close>, the
  double that \<open>1001 * 3.3\<close> evaluates to, written as the fraction it is.
\<close>

definition cfg_rounding :: config where
  "cfg_rounding = cfg_sweep\<lparr> emergency_buffer := 7264033520064921 / 2 ^ 41 \<rparr>"

section \<open>Properties\<close>

subsection \<open>The loop: an invariant rule and splitting the month list\<close>

lemma sim_loop_paid_off: "mortgage_paid_off s \<Longrightarrow> sim_loop c ms s = Some s"
  by (cases ms) simp_all

lemma sim_loop_upt_rule:
  assumes run: "sim_loop c [a..<b] s = Some s'"
    and ab: "a \<le> b"
    and init: "I a s"
    and step: "\<And>m t t1. a \<le> m \<Longrightarrow> m < b \<Longrightarrow> I m t \<Longrightarrow> \<not> mortgage_paid_off t \<Longrightarrow>
                 0 < mortgage_balance t \<Longrightarrow>
                 month_body c m (t\<lparr> lump_sum := 0 \<rparr>) = Some t1 \<Longrightarrow> I (Suc m) t1"
    and final: "\<And>m t. a \<le> m \<Longrightarrow> m \<le> b \<Longrightarrow> I m t \<Longrightarrow> Q t"
    and stop: "\<And>m t. a \<le> m \<Longrightarrow> m < b \<Longrightarrow> I m t \<Longrightarrow> \<not> mortgage_paid_off t \<Longrightarrow>
                 mortgage_balance t \<le> 0 \<Longrightarrow> Q (mark_paid_off m (t\<lparr> lump_sum := 0 \<rparr>))"
  shows "Q s'"
  using run ab init step final stop
proof (induction "b - a" arbitrary: a s)
  case 0
  then have "a = b" by simp
  then have "s' = s" using "0.prems"(1) by simp
  then show ?case using "0.prems"(3) "0.prems"(5)[of a s] \<open>a = b\<close> by simp
next
  case (Suc n)
  then have ab: "a < b" by simp
  then have upt: "[a..<b] = a # [Suc a..<b]" by (simp add: upt_conv_Cons)
  show ?case
  proof (cases "mortgage_paid_off s")
    case True
    then have "s' = s" using Suc.prems(1) upt by simp
    then show ?thesis using Suc.prems(3) Suc.prems(5)[of a s] ab by simp
  next
    case npo: False
    show ?thesis
    proof (cases "mortgage_balance s \<le> 0")
      case True
      then have "s' = mark_paid_off a (s\<lparr> lump_sum := 0 \<rparr>)"
        using Suc.prems(1) upt npo by simp
      then show ?thesis using Suc.prems(3) Suc.prems(6)[of a s] ab npo True by simp
    next
      case False
      then obtain s1 where body: "month_body c a (s\<lparr> lump_sum := 0 \<rparr>) = Some s1"
        and rest: "sim_loop c [Suc a..<b] s1 = Some s'"
        using Suc.prems(1) upt npo by (auto split: option.splits)
      have I1: "I (Suc a) s1"
        using Suc.prems(4)[of a s s1] Suc.prems(3) ab npo False body by simp
      have n: "n = b - Suc a" using Suc.hyps(2) by simp
      have ab1: "Suc a \<le> b" using ab by simp
      show ?thesis
      proof (rule Suc.hyps(1)[OF n rest ab1 I1])
        fix m t t1
        assume "Suc a \<le> m" "m < b" "I m t" "\<not> mortgage_paid_off t" "0 < mortgage_balance t"
          "month_body c m (t\<lparr> lump_sum := 0 \<rparr>) = Some t1"
        then show "I (Suc m) t1" using Suc.prems(4)[of m t t1] by simp
      next
        fix m t
        assume "Suc a \<le> m" "m \<le> b" "I m t"
        then show "Q t" using Suc.prems(5)[of m t] by simp
      next
        fix m t
        assume "Suc a \<le> m" "m < b" "I m t" "\<not> mortgage_paid_off t" "mortgage_balance t \<le> 0"
        then show "Q (mark_paid_off m (t\<lparr> lump_sum := 0 \<rparr>))" using Suc.prems(6)[of m t] by simp
      qed
    qed
  qed
qed

lemma sim_loop_append:
  "sim_loop c (xs @ ys) s =
     (case sim_loop c xs s of None \<Rightarrow> None | Some s1 \<Rightarrow> sim_loop c ys s1)"
proof (induction xs arbitrary: s)
  case Nil
  then show ?case by simp
next
  case (Cons m xs)
  show ?case
    by (simp add: Cons.IH sim_loop_paid_off mark_paid_off_def split: option.splits)
qed

subsection \<open>What each step of the month leaves alone\<close>

lemma reset_yearly_allowance_frame [simp]:
  "mortgage_balance (reset_yearly_allowance month s) = mortgage_balance s"
  "cash_savings (reset_yearly_allowance month s) = cash_savings s"
  "cur_monthly_income (reset_yearly_allowance month s) = cur_monthly_income s"
  "cur_monthly_expenses (reset_yearly_allowance month s) = cur_monthly_expenses s"
  "standard_monthly_payment (reset_yearly_allowance month s) = standard_monthly_payment s"
  "total_interest_paid (reset_yearly_allowance month s) = total_interest_paid s"
  "months_to_mortgage_free (reset_yearly_allowance month s) = months_to_mortgage_free s"
  "mortgage_paid_off (reset_yearly_allowance month s) = mortgage_paid_off s"
  "cumulative_overpayments (reset_yearly_allowance month s) = cumulative_overpayments s"
  "lump_sum (reset_yearly_allowance month s) = lump_sum s"
  "available_cash (reset_yearly_allowance month s) = available_cash s"
  "end_of_fixed_period (reset_yearly_allowance month s) = end_of_fixed_period s"
  "interest_payment (reset_yearly_allowance month s) = interest_payment s"
  "capital_repayment (reset_yearly_allowance month s) = capital_repayment s"
  "current_overpayment (reset_yearly_allowance month s) = current_overpayment s"
  "overpayment_events (reset_yearly_allowance month s) = overpayment_events s"
  "rows (reset_yearly_allowance month s) = rows s"
  by (simp_all add: reset_yearly_allowance_def)

lemma apply_growth_frame [simp]:
  "mortgage_balance (apply_growth c month s) = mortgage_balance s"
  "cash_savings (apply_growth c month s) = cash_savings s"
  "standard_monthly_payment (apply_growth c month s) = standard_monthly_payment s"
  "total_interest_paid (apply_growth c month s) = total_interest_paid s"
  "months_to_mortgage_free (apply_growth c month s) = months_to_mortgage_free s"
  "yearly_overpayment_limit (apply_growth c month s) = yearly_overpayment_limit s"
  "mortgage_paid_off (apply_growth c month s) = mortgage_paid_off s"
  "overpayment_made_this_year (apply_growth c month s) = overpayment_made_this_year s"
  "current_year (apply_growth c month s) = current_year s"
  "cumulative_overpayments (apply_growth c month s) = cumulative_overpayments s"
  "lump_sum (apply_growth c month s) = lump_sum s"
  "end_of_fixed_period (apply_growth c month s) = end_of_fixed_period s"
  "interest_payment (apply_growth c month s) = interest_payment s"
  "capital_repayment (apply_growth c month s) = capital_repayment s"
  "current_overpayment (apply_growth c month s) = current_overpayment s"
  "overpayment_events (apply_growth c month s) = overpayment_events s"
  "rows (apply_growth c month s) = rows s"
  by (simp_all add: apply_growth_def Let_def)

lemma end_of_period_sweep_frame [simp]:
  "cur_monthly_income (end_of_period_sweep c month idx s) = cur_monthly_income s"
  "cur_monthly_expenses (end_of_period_sweep c month idx s) = cur_monthly_expenses s"
  "standard_monthly_payment (end_of_period_sweep c month idx s) = standard_monthly_payment s"
  "total_interest_paid (end_of_period_sweep c month idx s) = total_interest_paid s"
  "months_to_mortgage_free (end_of_period_sweep c month idx s) = months_to_mortgage_free s"
  "yearly_overpayment_limit (end_of_period_sweep c month idx s) = yearly_overpayment_limit s"
  "mortgage_paid_off (end_of_period_sweep c month idx s) = mortgage_paid_off s"
  "current_year (end_of_period_sweep c month idx s) = current_year s"
  "available_cash (end_of_period_sweep c month idx s) = available_cash s"
  "interest_payment (end_of_period_sweep c month idx s) = interest_payment s"
  "capital_repayment (end_of_period_sweep c month idx s) = capital_repayment s"
  "current_overpayment (end_of_period_sweep c month idx s) = current_overpayment s"
  "rows (end_of_period_sweep c month idx s) = rows s"
  by (simp_all add: end_of_period_sweep_def Let_def)

lemma variable_rate_rule_frame [simp]:
  "cur_monthly_income (variable_rate_rule c month s) = cur_monthly_income s"
  "cur_monthly_expenses (variable_rate_rule c month s) = cur_monthly_expenses s"
  "standard_monthly_payment (variable_rate_rule c month s) = standard_monthly_payment s"
  "total_interest_paid (variable_rate_rule c month s) = total_interest_paid s"
  "months_to_mortgage_free (variable_rate_rule c month s) = months_to_mortgage_free s"
  "yearly_overpayment_limit (variable_rate_rule c month s) = yearly_overpayment_limit s"
  "mortgage_paid_off (variable_rate_rule c month s) = mortgage_paid_off s"
  "overpayment_made_this_year (variable_rate_rule c month s) = overpayment_made_this_year s"
  "current_year (variable_rate_rule c month s) = current_year s"
  "available_cash (variable_rate_rule c month s) = available_cash s"
  "end_of_fixed_period (variable_rate_rule c month s) = end_of_fixed_period s"
  "interest_payment (variable_rate_rule c month s) = interest_payment s"
  "capital_repayment (variable_rate_rule c month s) = capital_repayment s"
  "current_overpayment (variable_rate_rule c month s) = current_overpayment s"
  "rows (variable_rate_rule c month s) = rows s"
  by (simp_all add: variable_rate_rule_def Let_def)

lemma regular_payment_frame [simp]:
  "cash_savings (regular_payment c month s) = cash_savings s"
  "cur_monthly_income (regular_payment c month s) = cur_monthly_income s"
  "cur_monthly_expenses (regular_payment c month s) = cur_monthly_expenses s"
  "standard_monthly_payment (regular_payment c month s) = standard_monthly_payment s"
  "months_to_mortgage_free (regular_payment c month s) = months_to_mortgage_free s"
  "yearly_overpayment_limit (regular_payment c month s) = yearly_overpayment_limit s"
  "mortgage_paid_off (regular_payment c month s) = mortgage_paid_off s"
  "overpayment_made_this_year (regular_payment c month s) = overpayment_made_this_year s"
  "current_year (regular_payment c month s) = current_year s"
  "cumulative_overpayments (regular_payment c month s) = cumulative_overpayments s"
  "lump_sum (regular_payment c month s) = lump_sum s"
  "end_of_fixed_period (regular_payment c month s) = end_of_fixed_period s"
  "current_overpayment (regular_payment c month s) = current_overpayment s"
  "overpayment_events (regular_payment c month s) = overpayment_events s"
  "rows (regular_payment c month s) = rows s"
  by (simp_all add: regular_payment_def Let_def)

lemma annual_rule_frame [simp]:
  "cur_monthly_income (annual_rule c month s) = cur_monthly_income s"
  "cur_monthly_expenses (annual_rule c month s) = cur_monthly_expenses s"
  "standard_monthly_payment (annual_rule c month s) = standard_monthly_payment s"
  "total_interest_paid (annual_rule c month s) = total_interest_paid s"
  "months_to_mortgage_free (annual_rule c month s) = months_to_mortgage_free s"
  "yearly_overpayment_limit (annual_rule c month s) = yearly_overpayment_limit s"
  "mortgage_paid_off (annual_rule c month s) = mortgage_paid_off s"
  "current_year (annual_rule c month s) = current_year s"
  "lump_sum (annual_rule c month s) = lump_sum s"
  "available_cash (annual_rule c month s) = available_cash s"
  "end_of_fixed_period (annual_rule c month s) = end_of_fixed_period s"
  "interest_payment (annual_rule c month s) = interest_payment s"
  "capital_repayment (annual_rule c month s) = capital_repayment s"
  "rows (annual_rule c month s) = rows s"
  by (simp_all add: annual_rule_def Let_def)

lemma handle_savings_frame [simp]:
  "mortgage_balance (handle_savings c s) = mortgage_balance s"
  "cur_monthly_income (handle_savings c s) = cur_monthly_income s"
  "cur_monthly_expenses (handle_savings c s) = cur_monthly_expenses s"
  "standard_monthly_payment (handle_savings c s) = standard_monthly_payment s"
  "total_interest_paid (handle_savings c s) = total_interest_paid s"
  "months_to_mortgage_free (handle_savings c s) = months_to_mortgage_free s"
  "yearly_overpayment_limit (handle_savings c s) = yearly_overpayment_limit s"
  "mortgage_paid_off (handle_savings c s) = mortgage_paid_off s"
  "overpayment_made_this_year (handle_savings c s) = overpayment_made_this_year s"
  "current_year (handle_savings c s) = current_year s"
  "cumulative_overpayments (handle_savings c s) = cumulative_overpayments s"
  "lump_sum (handle_savings c s) = lump_sum s"
  "available_cash (handle_savings c s) = available_cash s"
  "end_of_fixed_period (handle_savings c s) = end_of_fixed_period s"
  "interest_payment (handle_savings c s) = interest_payment s"
  "capital_repayment (handle_savings c s) = capital_repayment s"
  "current_overpayment (handle_savings c s) = current_overpayment s"
  "overpayment_events (handle_savings c s) = overpayment_events s"
  "rows (handle_savings c s) = rows s"
  by (simp_all add: handle_savings_def Let_def)

lemma track_progress_frame [simp]:
  "mortgage_balance (track_progress month s) = mortgage_balance s"
  "cash_savings (track_progress month s) = cash_savings s"
  "cur_monthly_income (track_progress month s) = cur_monthly_income s"
  "cur_monthly_expenses (track_progress month s) = cur_monthly_expenses s"
  "standard_monthly_payment (track_progress month s) = standard_monthly_payment s"
  "total_interest_paid (track_progress month s) = total_interest_paid s"
  "months_to_mortgage_free (track_progress month s) = months_to_mortgage_free s"
  "yearly_overpayment_limit (track_progress month s) = yearly_overpayment_limit s"
  "mortgage_paid_off (track_progress month s) = mortgage_paid_off s"
  "overpayment_made_this_year (track_progress month s) = overpayment_made_this_year s"
  "current_year (track_progress month s) = current_year s"
  "cumulative_overpayments (track_progress month s) = cumulative_overpayments s"
  "lump_sum (track_progress month s) = lump_sum s"
  "available_cash (track_progress month s) = available_cash s"
  "end_of_fixed_period (track_progress month s) = end_of_fixed_period s"
  "interest_payment (track_progress month s) = interest_payment s"
  "capital_repayment (track_progress month s) = capital_repayment s"
  "current_overpayment (track_progress month s) = current_overpayment s"
  "overpayment_events (track_progress month s) = overpayment_events s"
  by (simp_all add: track_progress_def)

lemma mark_paid_off_frame [simp]:
  "cash_savings (mark_paid_off month s) = cash_savings s"
  "cur_monthly_income (mark_paid_off month s) = cur_monthly_income s"
  "cur_monthly_expenses (mark_paid_off month s) = cur_monthly_expenses s"
  "total_interest_paid (mark_paid_off month s) = total_interest_paid s"
  "yearly_overpayment_limit (mark_paid_off month s) = yearly_overpayment_limit s"
  "overpayment_made_this_year (mark_paid_off month s) = overpayment_made_this_year s"
  "current_year (mark_paid_off month s) = current_year s"
  "cumulative_overpayments (mark_paid_off month s) = cumulative_overpayments s"
  "lump_sum (mark_paid_off month s) = lump_sum s"
  "available_cash (mark_paid_off month s) = available_cash s"
  "end_of_fixed_period (mark_paid_off month s) = end_of_fixed_period s"
  "interest_payment (mark_paid_off month s) = interest_payment s"
  "capital_repayment (mark_paid_off month s) = capital_repayment s"
  "current_overpayment (mark_paid_off month s) = current_overpayment s"
  "overpayment_events (mark_paid_off month s) = overpayment_events s"
  "rows (mark_paid_off month s) = rows s"
  by (simp_all add: mark_paid_off_def)

lemma before_rules_frame [simp]:
  "mortgage_balance (before_rules c month s) = mortgage_balance s"
  "cash_savings (before_rules c month s) = cash_savings s"
  "standard_monthly_payment (before_rules c month s) = standard_monthly_payment s"
  "total_interest_paid (before_rules c month s) = total_interest_paid s"
  "months_to_mortgage_free (before_rules c month s) = months_to_mortgage_free s"
  "mortgage_paid_off (before_rules c month s) = mortgage_paid_off s"
  "cumulative_overpayments (before_rules c month s) = cumulative_overpayments s"
  "lump_sum (before_rules c month s) = lump_sum s"
  "overpayment_events (before_rules c month s) = overpayment_events s"
  "rows (before_rules c month s) = rows s"
  by (simp_all add: before_rules_def)

lemma update_payment_Some:
  assumes "update_payment c m s = Some s'"
  shows "\<exists>p. s' = s\<lparr> standard_monthly_payment := p \<rparr>"
proof (cases "mortgage_balance s > 0")
  case True
  with assms show ?thesis
    by (auto simp: update_payment_def Let_def split: option.splits)
next
  case False
  with assms have "s' = s" by (simp add: update_payment_def)
  then have "s' = s\<lparr> standard_monthly_payment := standard_monthly_payment s \<rparr>" by simp
  then show ?thesis by blast
qed

lemma check_fixed_periods_cases:
  assumes "check_fixed_periods c m idx sched s = Some s1"
  shows "(s1 = s \<and> (\<forall>p \<in> set sched. fst (snd p) \<noteq> int m)) \<or>
         (\<exists>j. update_payment c m (end_of_period_sweep c m j s) = Some s1 \<and>
              (\<exists>p \<in> set sched. fst (snd p) = int m))"
  using assms
  by (induction c m idx sched s rule: check_fixed_periods.induct) (auto split: if_splits)

lemma end_of_fixed_period_rule_cases:
  assumes "end_of_fixed_period_rule c m s = Some s1"
  obtains (no_end) "s1 = s\<lparr> end_of_fixed_period := False \<rparr>"
      and "\<forall>p \<in> set (fixed_period_schedule c). fst (snd p) \<noteq> int m"
    | (period_end) j p where
        "s1 = (end_of_period_sweep c m j (s\<lparr> end_of_fixed_period := False \<rparr>))
                \<lparr> standard_monthly_payment := p \<rparr>"
      and "update_payment c m (end_of_period_sweep c m j (s\<lparr> end_of_fixed_period := False \<rparr>)) = Some s1"
      and "\<exists>p \<in> set (fixed_period_schedule c). fst (snd p) = int m"
proof -
  from assms have "check_fixed_periods c m 0 (fixed_period_schedule c)
      (s\<lparr> end_of_fixed_period := False \<rparr>) = Some s1"
    by (simp add: end_of_fixed_period_rule_def)
  from check_fixed_periods_cases[OF this] show thesis
  proof (elim disjE conjE exE)
    assume "s1 = s\<lparr> end_of_fixed_period := False \<rparr>"
      "\<forall>p \<in> set (fixed_period_schedule c). fst (snd p) \<noteq> int m"
    then show thesis by (rule no_end)
  next
    fix j
    assume u: "update_payment c m (end_of_period_sweep c m j (s\<lparr> end_of_fixed_period := False \<rparr>)) = Some s1"
      and e: "\<exists>p \<in> set (fixed_period_schedule c). fst (snd p) = int m"
    from update_payment_Some[OF u] obtain p where
      "s1 = (end_of_period_sweep c m j (s\<lparr> end_of_fixed_period := False \<rparr>))
                \<lparr> standard_monthly_payment := p \<rparr>" by blast
    then show thesis using u e by (rule period_end)
  qed
qed

lemma end_of_fixed_period_rule_frame:
  assumes "end_of_fixed_period_rule c m s = Some s1"
  shows "rows s1 = rows s"
    and "total_interest_paid s1 = total_interest_paid s"
    and "mortgage_paid_off s1 = mortgage_paid_off s"
    and "yearly_overpayment_limit s1 = yearly_overpayment_limit s"
    and "available_cash s1 = available_cash s"
    and "cur_monthly_income s1 = cur_monthly_income s"
    and "cur_monthly_expenses s1 = cur_monthly_expenses s"
    and "current_year s1 = current_year s"
  using assms by (auto elim!: end_of_fixed_period_rule_cases)

lemma before_annual_frame [simp]:
  "rows (before_annual c month s) = rows s"
  "overpayment_events (before_annual c month s) = overpayment_events (variable_rate_rule c month s)"
  "cumulative_overpayments (before_annual c month s) = cumulative_overpayments (variable_rate_rule c month s)"
  "cash_savings (before_annual c month s) = cash_savings (variable_rate_rule c month s)"
  "standard_monthly_payment (before_annual c month s) = standard_monthly_payment s"
  "yearly_overpayment_limit (before_annual c month s) = yearly_overpayment_limit s"
  "overpayment_made_this_year (before_annual c month s) = overpayment_made_this_year s"
  "mortgage_paid_off (before_annual c month s) = mortgage_paid_off s"
  "current_year (before_annual c month s) = current_year s"
  by (simp_all add: before_annual_def)

lemma month_body_decompose:
  assumes "month_body c m s = Some s'"
  obtains s1 where "end_of_fixed_period_rule c m (before_rules c m s) = Some s1"
    and "s' = track_progress m (handle_savings c (annual_rule c m (before_annual c m s1)))"
  using assms by (auto simp: month_body_def split: option.splits)

lemma extends_log_refl: 
  "overpayment_events s' = overpayment_events s \<Longrightarrow> cumulative_overpayments s' = cumulative_overpayments s \<Longrightarrow> extends_log m s s'"
  by (simp add: extends_log_def logged_amounts_def)

lemma extends_log_trans: "extends_log m s s1 \<Longrightarrow> extends_log m s1 s2 \<Longrightarrow> extends_log m s s2"
  unfolding extends_log_def
  apply (elim exE conjE)
  subgoal for new1 new2
    by (rule exI[of _ "new1 @ new2"]) (auto simp: logged_amounts_def)
  done

lemma extends_log_sweep: "extends_log m s (end_of_period_sweep c m idx s)"
  unfolding extends_log_def end_of_period_sweep_def Let_def
  by (simp add: logged_amounts_def)

lemma extends_log_rule1: 
  assumes "end_of_fixed_period_rule c m s = Some s1" shows "extends_log m s s1"
  using assms
proof (cases rule: end_of_fixed_period_rule_cases)
  case no_end
  then show ?thesis by (simp add: extends_log_refl)
next
  case (period_end j p)
  have a: "extends_log m s (s\<lparr> end_of_fixed_period := False \<rparr>)"
    by (simp add: extends_log_refl)
  have b: "extends_log m (end_of_period_sweep c m j (s\<lparr> end_of_fixed_period := False \<rparr>)) s1"
    unfolding period_end(1) by (simp add: extends_log_refl)
  show ?thesis
    by (rule extends_log_trans[OF a extends_log_trans[OF extends_log_sweep b]])
qed

lemma extends_log_rule2: "extends_log m s (variable_rate_rule c m s)"
  unfolding extends_log_def variable_rate_rule_def Let_def
  by (simp add: logged_amounts_def)

lemma extends_log_rule3: "extends_log m s (annual_rule c m s)"
  unfolding extends_log_def annual_rule_def Let_def
  by (simp add: logged_amounts_def)

lemma extends_log_month_body:
  assumes "month_body c m s = Some s'" shows "extends_log m s s'"
proof -
  from assms obtain s1 where r1: "end_of_fixed_period_rule c m (before_rules c m s) = Some s1"
    and s': "s' = track_progress m (handle_savings c (annual_rule c m (before_annual c m s1)))"
    by (rule month_body_decompose)
  have a: "extends_log m s s1"
    by (rule extends_log_trans[OF _ extends_log_rule1[OF r1]]) (simp add: extends_log_refl)
  have b: "extends_log m s1 (before_annual c m s1)"
    by (rule extends_log_trans[OF extends_log_rule2[where c=c]]) (simp add: extends_log_refl)
  have c: "extends_log m (before_annual c m s1) s'"
    unfolding s'
    by (rule extends_log_trans[OF extends_log_rule3[where c=c]]) (simp add: extends_log_refl)
  show ?thesis
    by (rule extends_log_trans[OF a extends_log_trans[OF b c]])
qed

lemma rows_month_body:
  assumes "month_body c m s = Some s'"
  shows "rows s' = rows s @ [last (rows s')]"
    and "row_total_overpayments_cumulative (last (rows s')) = cumulative_overpayments s'"
    and "row_savings_balance (last (rows s')) = cash_savings s'"
    and "row_mortgage_balance (last (rows s')) = mortgage_balance s'"
proof -
  from assms obtain s1 where r1: "end_of_fixed_period_rule c m (before_rules c m s) = Some s1"
    and s': "s' = track_progress m (handle_savings c (annual_rule c m (before_annual c m s1)))"
    by (rule month_body_decompose)
  have b: "rows s1 = rows s"
    using end_of_fixed_period_rule_frame(1)[OF r1] by simp
  show "rows s' = rows s @ [last (rows s')]"
    unfolding s' using b by (simp add: track_progress_def)
  show "row_total_overpayments_cumulative (last (rows s')) = cumulative_overpayments s'"
    unfolding s' by (simp add: track_progress_def)
  show "row_savings_balance (last (rows s')) = cash_savings s'"
    unfolding s' by (simp add: track_progress_def)
  show "row_mortgage_balance (last (rows s')) = mortgage_balance s'"
    unfolding s' by (simp add: track_progress_def)
qed

lemma run_simulation_Some:
  assumes "run_simulation c = Some r"
  obtains p s where "initial_payment c = Some p"
    and "sim_loop c [0..<nat (months c)] (initial_state c p) = Some s"
    and "res_rows r = rows s"
    and "res_overpayment_events r = overpayment_events s"
    and "total_overpayments r = cumulative_overpayments s"
    and "final_savings r = cash_savings s"
    and "res_total_interest_paid r = total_interest_paid s"
    and "res_months_to_mortgage_free r = months_to_mortgage_free s"
  using assms
  by (auto simp: run_simulation_def state_at_def Let_def split: option.splits)

subsection \<open>Evaluating the concrete configurations\<close>

lemmas eval_defs =
  run_simulation_def state_at_def initial_payment_def initial_state_def pmt_def
  float_power_def current_rate_def fixed_period_schedule_def months_def n_payments_total_def
  monthly_savings_rate_def full_term_rate_def month_body_def before_rules_def before_annual_def
  reset_yearly_allowance_def apply_growth_def end_of_fixed_period_rule_def
  end_of_period_sweep_def update_payment_def variable_rate_rule_def regular_payment_def
  annual_rule_def handle_savings_def track_progress_def mark_paid_off_def

lemma run_cfg_sweep: "run_simulation cfg_sweep = Some cfg_sweep_result"
  by (simp add: eval_defs cfg_sweep_def cfg_sweep_result_def upt_conv_Cons Let_def)

subsection \<open>The cumulative total and the event log\<close>

lemma log_inv_step:
  assumes inv: "log_inv m t" and body: "month_body c m (t\<lparr> lump_sum := 0 \<rparr>) = Some t1"
  shows "log_inv (Suc m) t1"
proof -
  let ?t0 = "t\<lparr> lump_sum := 0 \<rparr>"
  from extends_log_month_body[OF body] obtain new where
    ev: "overpayment_events t1 = overpayment_events t @ new"
    and mon: "\<forall>e \<in> set new. ev_month e = m"
    and cum: "cumulative_overpayments t1 = cumulative_overpayments t + logged_amounts new"
    by (auto simp: extends_log_def)
  have rows1: "rows t1 = rows t @ [last (rows t1)]"
    using rows_month_body(1)[OF body] by simp
  have lastrow: "row_total_overpayments_cumulative (last (rows t1)) = cumulative_overpayments t1"
    by (rule rows_month_body(2)[OF body])
  from inv have len: "length (rows t) = m"
    and old: "\<forall>e \<in> set (overpayment_events t). ev_month e < m"
    and c0: "cumulative_overpayments t = logged_amounts (overpayment_events t)"
    and r0: "\<forall>i < m. row_total_overpayments_cumulative (rows t ! i) =
          logged_amounts (filter (\<lambda>e. ev_month e \<le> i) (overpayment_events t))"
    by (auto simp: log_inv_def cumulative_matches_log_def)
  have len1: "length (rows t1) = Suc m"
    using rows1 len by (metis length_append_singleton)
  have months1: "\<forall>e \<in> set (overpayment_events t1). ev_month e < Suc m"
    using ev old mon by auto
  have c1: "cumulative_overpayments t1 = logged_amounts (overpayment_events t1)"
    using cum c0 ev by (simp add: logged_amounts_def)
  have r1: "row_total_overpayments_cumulative (rows t1 ! i) =
          logged_amounts (filter (\<lambda>e. ev_month e \<le> i) (overpayment_events t1))"
    if "i < Suc m" for i
  proof (cases "i < m")
    case True
    have "rows t1 ! i = rows t ! i"
      using rows1 len True by (metis nth_append)
    moreover have "filter (\<lambda>e. ev_month e \<le> i) new = []"
      using mon True by (auto simp: filter_empty_conv)
    ultimately show ?thesis using r0 True ev by simp
  next
    case False
    then have im: "i = m" using that by simp
    have "rows t1 ! m = last (rows t1)"
      using rows1 len by (metis nth_append_length)
    moreover have "filter (\<lambda>e. ev_month e \<le> m) (overpayment_events t1) = overpayment_events t1"
      using months1 by (auto simp: filter_id_conv)
    ultimately show ?thesis using im lastrow c1 by simp
  qed
  show ?thesis
    unfolding log_inv_def cumulative_matches_log_def
    using len1 months1 c1 r1 by simp
qed

lemma sim_loop_cumulative_matches_log:
  assumes "sim_loop c [0..<n] (initial_state c p) = Some s"
  shows "cumulative_matches_log s"
proof (rule sim_loop_upt_rule[OF assms, where I = log_inv and Q = cumulative_matches_log])
  show "log_inv 0 (initial_state c p)"
    by (simp add: log_inv_def cumulative_matches_log_def initial_state_def logged_amounts_def)
next
  fix m t t1
  assume "log_inv m t" "month_body c m (t\<lparr> lump_sum := 0 \<rparr>) = Some t1"
  then show "log_inv (Suc m) t1" by (rule log_inv_step)
next
  fix m t assume "log_inv m t"
  then show "cumulative_matches_log t" by (simp add: log_inv_def)
next
  fix m t assume "log_inv m t"
  then show "cumulative_matches_log (mark_paid_off m (t\<lparr> lump_sum := 0 \<rparr>))"
    by (simp add: log_inv_def cumulative_matches_log_def)
qed simp

text \<open>
  Claim C10. At every month, the cumulative-overpayments value recorded in that month's
  row is the sum of the amounts of all events logged up to and including that month, and
  the summary \<open>total_overpayments\<close> is the sum of all event amounts of the run.
\<close>

theorem C10_cumulative_overpayments_sum_the_log:
  assumes "run_simulation c = Some r"
  shows "(\<forall>i < length (res_rows r).
            row_total_overpayments_cumulative (res_rows r ! i) =
              sum_list (map ev_amount
                (filter (\<lambda>e. ev_month e \<le> i) (res_overpayment_events r)))) \<and>
         total_overpayments r = sum_list (map ev_amount (res_overpayment_events r))"
proof -
  from assms obtain p s where
    loop: "sim_loop c [0..<nat (months c)] (initial_state c p) = Some s"
    and r: "res_rows r = rows s" "res_overpayment_events r = overpayment_events s"
      "total_overpayments r = cumulative_overpayments s"
    by (rule run_simulation_Some)
  from sim_loop_cumulative_matches_log[OF loop] show ?thesis
    unfolding cumulative_matches_log_def logged_amounts_def r by simp
qed

theorem C10_witness:
  "run_simulation cfg_sweep = Some cfg_sweep_result \<and>
   row_total_overpayments_cumulative (res_rows cfg_sweep_result ! 1) =
     sum_list (map ev_amount
       (filter (\<lambda>e. ev_month e \<le> 1) (res_overpayment_events cfg_sweep_result))) \<and>
   row_total_overpayments_cumulative (res_rows cfg_sweep_result ! 1) = 5900 \<and>
   total_overpayments cfg_sweep_result =
     sum_list (map ev_amount (res_overpayment_events cfg_sweep_result))"
proof -
  have len: "1 < length (res_rows cfg_sweep_result)"
    by (simp add: cfg_sweep_result_def)
  have val: "row_total_overpayments_cumulative (res_rows cfg_sweep_result ! 1) = 5900"
    by (simp add: cfg_sweep_result_def)
  from C10_cumulative_overpayments_sum_the_log[OF run_cfg_sweep] len val
  show ?thesis using run_cfg_sweep by blast
qed

subsection \<open>The accrual step\<close>

lemma rule1_cfg_deficit_month0:
  "end_of_fixed_period_rule cfg_deficit 0 (before_rules cfg_deficit 0 (initial_state cfg_deficit 100)) =
     Some ((before_rules cfg_deficit 0 (initial_state cfg_deficit 100))
             \<lparr> end_of_fixed_period := False \<rparr>)"
  by (simp add: end_of_fixed_period_rule_def fixed_period_schedule_def cfg_deficit_def)

text \<open>
  Claim C9. In a month whose net available cash (income - expenses - regular payment) is
  not strictly positive, the accrual step leaves the savings balance as it is: nothing is
  drawn for the deficit, and no savings interest is credited either, whatever the balance.
  Here \<open>s1\<close> is the state after rule 1, which holds the month's income, expenses and
  payment; the accrual step \<open>handle_savings\<close> is the identity on the state it receives,
  so the month's result is recorded straight from the state after rule 3.
\<close>

theorem C9_no_accrual_without_surplus:
  assumes "end_of_fixed_period_rule c month (before_rules c month s) = Some s1"
    and "cur_monthly_income s1 - cur_monthly_expenses s1 - standard_monthly_payment s1 \<le> 0"
  shows "handle_savings c (annual_rule c month (before_annual c month s1)) =
           annual_rule c month (before_annual c month s1) \<and>
         month_body c month s =
           Some (track_progress month (annual_rule c month (before_annual c month s1))) \<and>
         available_cash (annual_rule c month (before_annual c month s1)) =
           cur_monthly_income s1 - cur_monthly_expenses s1 - standard_monthly_payment s1"
proof -
  let ?s3 = "annual_rule c month (before_annual c month s1)"
  have a0: "available_cash (before_rules c month s) =
      cur_monthly_income (before_rules c month s) - cur_monthly_expenses (before_rules c month s)"
    by (simp add: before_rules_def apply_growth_def Let_def)
  have a1: "available_cash s1 = cur_monthly_income s1 - cur_monthly_expenses s1"
    using a0 end_of_fixed_period_rule_frame(5,6,7)[OF assms(1)] by simp
  have a2: "available_cash (before_annual c month s1) =
      cur_monthly_income s1 - cur_monthly_expenses s1 - standard_monthly_payment s1"
    using a1 by (simp add: before_annual_def regular_payment_def Let_def)
  have a3: "available_cash ?s3 \<le> 0"
    using a2 assms(2) by simp
  have h: "handle_savings c ?s3 = ?s3"
    using a3 by (simp add: handle_savings_def)
  have "month_body c month s = Some (track_progress month (handle_savings c ?s3))"
    using assms(1) by (simp add: month_body_def)
  then show ?thesis
    using h a2 by simp
qed

theorem C9_witness:
  "end_of_fixed_period_rule cfg_deficit 0 (before_rules cfg_deficit 0 (initial_state cfg_deficit 100)) =
     Some ((before_rules cfg_deficit 0 (initial_state cfg_deficit 100))
             \<lparr> end_of_fixed_period := False \<rparr>) \<and>
   available_cash (annual_rule cfg_deficit 0 (before_annual cfg_deficit 0
       ((before_rules cfg_deficit 0 (initial_state cfg_deficit 100))
             \<lparr> end_of_fixed_period := False \<rparr>))) = - 100 \<and>
   month_body cfg_deficit 0 (initial_state cfg_deficit 100) =
     Some (track_progress 0 (annual_rule cfg_deficit 0 (before_annual cfg_deficit 0
       ((before_rules cfg_deficit 0 (initial_state cfg_deficit 100))
             \<lparr> end_of_fixed_period := False \<rparr>))))"
proof -
  let ?s1 = "(before_rules cfg_deficit 0 (initial_state cfg_deficit 100))
             \<lparr> end_of_fixed_period := False \<rparr>"
  have v: "cur_monthly_income ?s1 - cur_monthly_expenses ?s1 - standard_monthly_payment ?s1 = - 100"
    by (simp add: before_rules_def apply_growth_def reset_yearly_allowance_def
        initial_state_def cfg_deficit_def Let_def)
  then have d: "cur_monthly_income ?s1 - cur_monthly_expenses ?s1 - standard_monthly_payment ?s1 \<le> 0"
    by simp
  from C9_no_accrual_without_surplus[OF rule1_cfg_deficit_month0 d] v rule1_cfg_deficit_month0
  show ?thesis by simp
qed

subsection \<open>Inputs that are not rejected\<close>

lemma sim_loop_rows_nonempty:
  assumes "sim_loop c [a..<b] s = Some s'" and "a \<le> b" and "rows s \<noteq> []"
  shows "rows s' \<noteq> []"
proof (rule sim_loop_upt_rule[OF assms(1,2), where I = "\<lambda>m t. rows t \<noteq> []" and Q = "\<lambda>t. rows t \<noteq> []"])
  show "rows s \<noteq> []" by (rule assms(3))
next
  fix m t t1
  assume "month_body c m (t\<lparr> lump_sum := 0 \<rparr>) = Some t1"
  from rows_month_body(1)[OF this] show "rows t1 \<noteq> []" by (metis snoc_eq_iff_butlast)
qed simp_all

lemma no_schedule_month_body:
  assumes "fixed_period_schedule c = []"
  shows "month_body c m s \<noteq> None"
  using assms by (simp add: month_body_def end_of_fixed_period_rule_def)

lemma no_schedule_sim_loop:
  assumes "fixed_period_schedule c = []"
  shows "sim_loop c ms s \<noteq> None"
proof (induction ms arbitrary: s)
  case Nil
  then show ?case by simp
next
  case (Cons m ms)
  show ?case
  proof (cases "month_body c m (s\<lparr> lump_sum := 0 \<rparr>)")
    case None
    then show ?thesis using no_schedule_month_body[OF assms] by simp
  next
    case (Some s1)
    then show ?thesis using Cons.IH by simp
  qed
qed

lemma run_simulation_rows_empty_iff:
  assumes "run_simulation c = Some r"
  shows "res_rows r = [] \<longleftrightarrow> initial_mortgage c \<le> 0 \<or> total_years_to_simulate c \<le> 0"
proof -
  from assms obtain p s where
    loop: "sim_loop c [0..<nat (months c)] (initial_state c p) = Some s"
    and r: "res_rows r = rows s"
    by (rule run_simulation_Some)
  let ?s0 = "initial_state c p"
  show ?thesis
  proof (cases "total_years_to_simulate c \<le> 0")
    case True
    then have "nat (months c) = 0" by (simp add: months_def)
    then have "s = ?s0" using loop by simp
    then show ?thesis using True r by (simp add: initial_state_def)
  next
    case False
    then have "0 < nat (months c)" by (simp add: months_def)
    then have upt: "[0..<nat (months c)] = 0 # [Suc 0..<nat (months c)]"
      by (simp add: upt_conv_Cons)
    have npo: "\<not> mortgage_paid_off ?s0" by (simp add: initial_state_def)
    have bal: "mortgage_balance ?s0 = initial_mortgage c" by (simp add: initial_state_def)
    show ?thesis
    proof (cases "initial_mortgage c \<le> 0")
      case True
      then have "s = mark_paid_off 0 (?s0\<lparr> lump_sum := 0 \<rparr>)"
        using loop upt npo bal by simp
      then have "rows s = []" by (simp add: initial_state_def)
      then show ?thesis using True r by simp
    next
      case pos: False
      then obtain s1 where body: "month_body c 0 (?s0\<lparr> lump_sum := 0 \<rparr>) = Some s1"
        and rest: "sim_loop c [Suc 0..<nat (months c)] s1 = Some s"
        using loop upt npo bal by (auto split: option.splits)
      from rows_month_body(1)[OF body] have "rows s1 \<noteq> []" by (metis snoc_eq_iff_butlast)
      from sim_loop_rows_nonempty[OF rest _ this] \<open>0 < nat (months c)\<close>
      have "rows s \<noteq> []" by simp
      then show ?thesis using pos False r by simp
    qed
  qed
qed

lemma initial_payment_cfg_negative_rate: "initial_payment cfg_negative_rate \<noteq> None"
proof -
  have lt: "(99 / 100 :: real) ^ 60 < 1"
  proof -
    have "(99 / 100 :: real) ^ Suc 59 < 1"
      by (rule power_Suc_less_one) simp_all
    then show ?thesis by simp
  qed
  then have "((99 / 100 :: real) ^ 60 - 1) / (- (1 / 100)) \<noteq> 0" by simp
  then show ?thesis
    by (simp add: initial_payment_def pmt_def float_power_def current_rate_def
        fixed_period_schedule_def n_payments_total_def cfg_negative_rate_def Let_def)
qed

lemma run_cfg_negative_rate: "run_simulation cfg_negative_rate \<noteq> None"
proof -
  obtain p where p: "initial_payment cfg_negative_rate = Some p"
    using initial_payment_cfg_negative_rate by blast
  have sched: "fixed_period_schedule cfg_negative_rate = []"
    by (simp add: fixed_period_schedule_def cfg_negative_rate_def)
  obtain s where s: "sim_loop cfg_negative_rate [0..<nat (months cfg_negative_rate)]
      (initial_state cfg_negative_rate p) = Some s"
    using no_schedule_sim_loop[OF sched] by blast
  have same: "pmt (full_term_rate cfg_negative_rate / 12) (mortgage_term_years cfg_negative_rate * 12)
      (- initial_mortgage cfg_negative_rate) = initial_payment cfg_negative_rate"
    by (simp add: initial_payment_def full_term_rate_def current_rate_def fixed_period_schedule_def
        n_payments_total_def cfg_negative_rate_def)
  show ?thesis
    using p s same by (simp add: run_simulation_def state_at_def Let_def)
qed

text \<open>
  The claim C6 as stated fails: \<open>cfg_negative_rate\<close> has a negative rate, and
  \<open>run_simulation\<close> returns a result for it whose list of monthly rows is not empty.
\<close>

theorem C6_negative_rate_counterexample:
  "mortgage_rate_after_fixed cfg_negative_rate < 0 \<and>
   run_simulation cfg_negative_rate \<noteq> None \<and>
   map_option res_rows (run_simulation cfg_negative_rate) \<noteq> Some []"
proof -
  obtain r where r: "run_simulation cfg_negative_rate = Some r"
    using run_cfg_negative_rate by blast
  have "res_rows r \<noteq> []"
    using run_simulation_rows_empty_iff[OF r] by (simp add: cfg_negative_rate_def)
  then show ?thesis using r by (simp add: cfg_negative_rate_def)
qed

lemma contiguous_build_schedule: "contiguous_from start (build_schedule start ps)"
  by (induction start ps rule: build_schedule.induct) simp_all

lemma check_fixed_periods_fl_rows [simp]:
  "rows_fl (check_fixed_periods_fl a c m idx sched s) = rows_fl s"
  by (induction sched arbitrary: idx)
     (auto simp: update_payment_fl_def end_of_period_sweep_fl_def Let_def)

lemma phases_fl_rows [simp]:
  "rows_fl (reset_yearly_allowance_fl a m s) = rows_fl s"
  "rows_fl (apply_growth_fl a c m s) = rows_fl s"
  "rows_fl (end_of_fixed_period_rule_fl a c m s) = rows_fl s"
  "rows_fl (variable_rate_rule_fl a c m s) = rows_fl s"
  "rows_fl (regular_payment_fl a c m s) = rows_fl s"
  "rows_fl (annual_rule_fl a c m s) = rows_fl s"
  "rows_fl (handle_savings_fl a c s) = rows_fl s"
  by (simp_all add: reset_yearly_allowance_fl_def apply_growth_fl_def
      end_of_fixed_period_rule_fl_def variable_rate_rule_fl_def regular_payment_fl_def
      annual_rule_fl_def handle_savings_fl_def Let_def)

lemma month_body_fl_rows:
  "length (rows_fl (month_body_fl a c m s)) = Suc (length (rows_fl s))"
  by (simp add: month_body_fl_def track_progress_fl_def)

lemma sim_loop_fl_rows_nonempty:
  "rows_fl s \<noteq> [] \<Longrightarrow> rows_fl (sim_loop_fl a c ms s) \<noteq> []"
proof (induction ms arbitrary: s)
  case Nil
  then show ?case by simp
next
  case (Cons m ms)
  have "rows_fl (month_body_fl a c m (s\<lparr> lump_sum_fl := Fin 0 \<rparr>)) \<noteq> []"
    using month_body_fl_rows[of a c m "s\<lparr> lump_sum_fl := Fin 0 \<rparr>"] by auto
  from Cons.IH[OF this] Cons.prems show ?case by (simp add: mark_paid_off_fl_def)
qed

lemma run_simulation_fl_rows_empty_iff:
  "res_rows_fl (run_simulation_fl a c) = [] \<longleftrightarrow>
     initial_mortgage c \<le> 0 \<or> total_years_to_simulate c \<le> 0"
proof -
  let ?s0 = "initial_state_fl a c"
  have rows: "res_rows_fl (run_simulation_fl a c) =
      rows_fl (sim_loop_fl a c [0..<nat (months c)] ?s0)"
    by (simp add: run_simulation_fl_def Let_def)
  show ?thesis
  proof (cases "total_years_to_simulate c \<le> 0")
    case True
    then have "nat (months c) = 0" by (simp add: months_def)
    then show ?thesis using True rows by (simp add: initial_state_fl_def)
  next
    case False
    then have "0 < nat (months c)" by (simp add: months_def)
    then have upt: "[0..<nat (months c)] = 0 # [Suc 0..<nat (months c)]"
      by (simp add: upt_conv_Cons)
    have npo: "\<not> mortgage_paid_off_fl ?s0" by (simp add: initial_state_fl_def)
    have bal: "mortgage_balance_fl ?s0 = Fin (initial_mortgage c)"
      by (simp add: initial_state_fl_def)
    show ?thesis
    proof (cases "initial_mortgage c \<le> 0")
      case True
      then have "sim_loop_fl a c [0..<nat (months c)] ?s0 =
          mark_paid_off_fl 0 (?s0\<lparr> lump_sum_fl := Fin 0 \<rparr>)"
        unfolding upt using npo bal by simp
      then have "res_rows_fl (run_simulation_fl a c) = []"
        using rows by (simp add: mark_paid_off_fl_def initial_state_fl_def)
      then show ?thesis using True by simp
    next
      case pos: False
      let ?s1 = "month_body_fl a c 0 (?s0\<lparr> lump_sum_fl := Fin 0 \<rparr>)"
      have loop: "sim_loop_fl a c [0..<nat (months c)] ?s0 =
          sim_loop_fl a c [Suc 0..<nat (months c)] ?s1"
        unfolding upt using npo bal pos by simp
      have "rows_fl ?s1 \<noteq> []"
        using month_body_fl_rows[of a c 0 "?s0\<lparr> lump_sum_fl := Fin 0 \<rparr>"] by auto
      then have "rows_fl (sim_loop_fl a c [Suc 0..<nat (months c)] ?s1) \<noteq> []"
        by (rule sim_loop_fl_rows_nonempty)
      then show ?thesis using pos False rows loop by simp
    qed
  qed
qed

lemma run_simulation_fl_nothing_owed:
  assumes "0 < total_years_to_simulate c" and "initial_mortgage c \<le> 0"
  shows "res_months_to_mortgage_free_fl (run_simulation_fl a c) = Some 0"
proof -
  let ?s0 = "initial_state_fl a c"
  from assms(1) have "0 < nat (months c)" by (simp add: months_def)
  then have upt: "[0..<nat (months c)] = 0 # [Suc 0..<nat (months c)]"
    by (simp add: upt_conv_Cons)
  have npo: "\<not> mortgage_paid_off_fl ?s0" by (simp add: initial_state_fl_def)
  have bal: "mortgage_balance_fl ?s0 = Fin (initial_mortgage c)"
    by (simp add: initial_state_fl_def)
  have "sim_loop_fl a c [0..<nat (months c)] ?s0 =
      mark_paid_off_fl 0 (?s0\<lparr> lump_sum_fl := Fin 0 \<rparr>)"
    unfolding upt using npo bal assms(2) by simp
  then show ?thesis by (simp add: run_simulation_fl_def Let_def mark_paid_off_fl_def)
qed

text \<open>
  Claim C6, amended. \<open>run_simulation\<close> has no validation step and rejects no
  configuration. In the floating-point model it is a total function, and for every
  configuration, every rounding and every value that \<open>npf.pmt\<close> may return (an infinity
  or NaN included, as for a term of 0), its list of monthly rows is empty exactly when
  the principal is not positive or the horizon is not positive. With a positive horizon
  and a principal that is not positive, the loop leaves at the top of month 0 and the
  result reports the mortgage as paid off in month 0. Neither a term that is not positive
  nor a negative rate keeps the months from being simulated. The schedule of fixed
  periods is built from the period lengths by cumulative sums, so every period starts
  where the previous one ends: no input gives a schedule that is not contiguous.
\<close>

theorem C6_no_configuration_rejected:
  "(res_rows_fl (run_simulation_fl a c) = [] \<longleftrightarrow>
      initial_mortgage c \<le> 0 \<or> total_years_to_simulate c \<le> 0) \<and>
   (0 < total_years_to_simulate c \<and> initial_mortgage c \<le> 0 \<longrightarrow>
      res_months_to_mortgage_free_fl (run_simulation_fl a c) = Some 0) \<and>
   contiguous_from 0 (fixed_period_schedule c)"
  using run_simulation_fl_rows_empty_iff[of a c] run_simulation_fl_nothing_owed[of c a]
    contiguous_build_schedule[of 0 "fixed_periods c"]
  by (simp add: fixed_period_schedule_def)

lemmas eval_fl_defs =
  run_simulation_fl_def initial_payment_fl_def initial_state_fl_def
  current_rate_def fixed_period_schedule_def months_def n_payments_total_def
  full_term_rate_def month_body_fl_def
  reset_yearly_allowance_fl_def apply_growth_fl_def end_of_fixed_period_rule_fl_def
  end_of_period_sweep_fl_def update_payment_fl_def variable_rate_rule_fl_def
  regular_payment_fl_def annual_rule_fl_def handle_savings_fl_def track_progress_fl_def
  mark_paid_off_fl_def fsub_def py_min_def py_max_def inf_times_def

lemma run_cfg_zero_term:
  "map row_mortgage_balance_fl (res_rows_fl (run_simulation_fl (exact_arith inf_payment) cfg_zero_term)) =
     [NInf]"
  "res_months_to_mortgage_free_fl (run_simulation_fl (exact_arith inf_payment) cfg_zero_term) = Some 1"
  by (simp_all add: eval_fl_defs exact_arith_def inf_payment_def cfg_zero_term_def cfg_sweep_def
      upt_conv_Cons Let_def)

theorem C6_witness:
  "mortgage_term_years cfg_zero_term = 0 \<and>
   0 < initial_mortgage cfg_zero_term \<and> 0 < total_years_to_simulate cfg_zero_term \<and>
   map row_mortgage_balance_fl (res_rows_fl (run_simulation_fl (exact_arith inf_payment) cfg_zero_term)) =
     [NInf] \<and>
   res_months_to_mortgage_free_fl (run_simulation_fl (exact_arith inf_payment) cfg_zero_term) = Some 1 \<and>
   res_rows_fl (run_simulation_fl (exact_arith inf_payment) cfg_zero_term) \<noteq> [] \<and>
   contiguous_from 0 (fixed_period_schedule cfg_zero_term)"
  using C6_no_configuration_rejected[of "exact_arith inf_payment" cfg_zero_term] run_cfg_zero_term
  by (simp add: cfg_zero_term_def cfg_sweep_def)

subsection \<open>The recorded mortgage balance\<close>

text \<open>
  Claim C1 says that every recorded mortgage balance is at least zero and that the
  scheduled payment never takes the balance below zero. On \<open>cfg_sweep\<close> the sweep of
  month 1 clears the balance, the payment of 100 is left as it was (line 350 skips the
  update when nothing is owed), and the scheduled payment of the same month records a
  balance of \<open>- 100\<close>. The clamp to zero at lines 309--311 acts at the top of the next
  iteration, after the row has been appended.
\<close>

theorem C1_negative_balance_recorded:
  "run_simulation cfg_sweep = Some cfg_sweep_result \<and>
   row_mortgage_balance (res_rows cfg_sweep_result ! 1) = - 100 \<and>
   row_mortgage_balance (res_rows cfg_sweep_result ! 1) < 0"
  using run_cfg_sweep by (simp add: cfg_sweep_result_def)

subsection \<open>Zero rates, and when the payment is recomputed\<close>








lemma state_at_cfg_sweep_1:
  "map_option mortgage_balance (state_at cfg_sweep 1) = Some 5300"
  "map_option standard_monthly_payment (state_at cfg_sweep 1) = Some 100"
  "map_option (map ev_amount \<circ> overpayment_events) (state_at cfg_sweep 1) = Some [600]"
  by (simp_all add: eval_defs cfg_sweep_def upt_conv_Cons Let_def)

text \<open>
  The claim C3 as stated fails. On \<open>cfg_sweep\<close> the annual rule overpays 600 in month 0;
  at the top of month 1 the balance is 5300 and the payment is still the initial 100,
  which is neither the re-amortisation of 5300 over the 59 months left nor over 60.
\<close>

theorem C3_payment_not_recomputed_counterexample:
  "map_option (map ev_amount \<circ> overpayment_events) (state_at cfg_sweep 1) = Some [600] \<and>
   map_option mortgage_balance (state_at cfg_sweep 1) = Some 5300 \<and>
   map_option standard_monthly_payment (state_at cfg_sweep 1) = Some 100 \<and>
   initial_payment cfg_sweep = Some 100 \<and>
   pmt (0 / 12) 59 (- 5300) \<noteq> Some 100 \<and>
   pmt (0 / 12) 60 (- 5300) \<noteq> Some 100"
  using state_at_cfg_sweep_1
  by (simp add: initial_payment_def pmt_def float_power_def current_rate_def
      fixed_period_schedule_def n_payments_total_def cfg_sweep_def Let_def)

lemma payment_after_rule1:
  assumes "month_body c m s = Some s'"
    and "end_of_fixed_period_rule c m (before_rules c m s) = Some s1"
  shows "standard_monthly_payment s' = standard_monthly_payment s1"
proof -
  have "s' = track_progress m (handle_savings c (annual_rule c m (before_annual c m s1)))"
    using assms by (simp add: month_body_def)
  then show ?thesis by simp
qed

lemma update_payment_value:
  assumes "update_payment c m s = Some s'"
  shows "mortgage_balance s' = mortgage_balance s"
    and "0 < mortgage_balance s \<Longrightarrow>
           pmt (rate_in_force (fixed_period_schedule c) (int m) (mortgage_rate_after_fixed c) / 12)
             (mortgage_term_years c * 12 - int m) (- mortgage_balance s) =
           Some (standard_monthly_payment s')"
    and "\<not> 0 < mortgage_balance s \<Longrightarrow> standard_monthly_payment s' = standard_monthly_payment s"
  using assms by (auto simp: update_payment_def Let_def split: if_splits option.splits)

text \<open>
  Claim C3, amended. The standard monthly payment is computed before the loop and
  recomputed in one place only, the end-of-fixed-period branch: in a month equal to the
  end of a fixed period, after the sweep, and only if a balance is left, it becomes the
  annuity payment for that balance at the rate in force that month over the months left
  of the original term. In every other month the payment at the end of the month is the
  payment at its start; the variable-rate rule, the scheduled payment and the annual
  rule never change it, whatever they overpay.
\<close>

theorem C3_payment_recomputed_only_at_period_end:
  assumes "month_body c m s = Some s'"
  shows "((\<forall>p \<in> set (fixed_period_schedule c). fst (snd p) \<noteq> int m) \<longrightarrow>
            standard_monthly_payment s' = standard_monthly_payment s) \<and>
         ((\<exists>p \<in> set (fixed_period_schedule c). fst (snd p) = int m) \<longrightarrow>
            (\<exists>s1. end_of_fixed_period_rule c m (before_rules c m s) = Some s1 \<and>
               (if 0 < mortgage_balance s1
                then pmt (rate_in_force (fixed_period_schedule c) (int m)
                            (mortgage_rate_after_fixed c) / 12)
                       (mortgage_term_years c * 12 - int m) (- mortgage_balance s1) =
                     Some (standard_monthly_payment s')
                else standard_monthly_payment s' = standard_monthly_payment s))) \<and>
         standard_monthly_payment (variable_rate_rule c m t) = standard_monthly_payment t \<and>
         standard_monthly_payment (regular_payment c m t) = standard_monthly_payment t \<and>
         standard_monthly_payment (annual_rule c m t) = standard_monthly_payment t"
proof -
  from assms obtain s1 where r1: "end_of_fixed_period_rule c m (before_rules c m s) = Some s1"
    by (rule month_body_decompose)
  have pay: "standard_monthly_payment s' = standard_monthly_payment s1"
    by (rule payment_after_rule1[OF assms r1])
  let ?s0 = "(before_rules c m s)\<lparr> end_of_fixed_period := False \<rparr>"
  have a: "standard_monthly_payment s' = standard_monthly_payment s"
    if "\<forall>p \<in> set (fixed_period_schedule c). fst (snd p) \<noteq> int m"
    using r1
  proof (cases rule: end_of_fixed_period_rule_cases)
    case no_end
    then show ?thesis using pay by simp
  next
    case (period_end j p)
    then show ?thesis using that by blast
  qed
  have b: "if 0 < mortgage_balance s1
      then pmt (rate_in_force (fixed_period_schedule c) (int m) (mortgage_rate_after_fixed c) / 12)
             (mortgage_term_years c * 12 - int m) (- mortgage_balance s1) =
           Some (standard_monthly_payment s')
      else standard_monthly_payment s' = standard_monthly_payment s"
    if "\<exists>p \<in> set (fixed_period_schedule c). fst (snd p) = int m"
    using r1
  proof (cases rule: end_of_fixed_period_rule_cases)
    case no_end
    then show ?thesis using that by blast
  next
    case (period_end j p)
    let ?sw = "end_of_period_sweep c m j ?s0"
    note u = update_payment_value[OF period_end(2)]
    have same: "standard_monthly_payment ?sw = standard_monthly_payment s" by simp
    show ?thesis
    proof (cases "0 < mortgage_balance s1")
      case True
      then have "0 < mortgage_balance ?sw" using u(1) by simp
      from u(2)[OF this] show ?thesis using True pay u(1) by simp
    next
      case False
      then have "\<not> 0 < mortgage_balance ?sw" using u(1) by simp
      from u(3)[OF this] show ?thesis using False pay same by simp
    qed
  qed
  show ?thesis using a b r1 by auto
qed

lemma month_body_cfg_sweep_0:
  "map_option standard_monthly_payment (month_body cfg_sweep 0 (initial_state cfg_sweep 100)) =
     Some 100"
  "map_option (map ev_amount \<circ> overpayment_events)
     (month_body cfg_sweep 0 (initial_state cfg_sweep 100)) = Some [600]"
  by (simp_all add: eval_defs cfg_sweep_def Let_def)

theorem C3_witness:
  "map_option standard_monthly_payment (month_body cfg_sweep 0 (initial_state cfg_sweep 100)) =
     Some 100 \<and>
   map_option (map ev_amount \<circ> overpayment_events)
     (month_body cfg_sweep 0 (initial_state cfg_sweep 100)) = Some [600] \<and>
   standard_monthly_payment (initial_state cfg_sweep 100) = 100 \<and>
   fixed_period_schedule cfg_sweep = [(0, 1, 0)]"
proof -
  obtain s' where b: "month_body cfg_sweep 0 (initial_state cfg_sweep 100) = Some s'"
    using month_body_cfg_sweep_0(1)
    by (cases "month_body cfg_sweep 0 (initial_state cfg_sweep 100)") auto
  have sched: "fixed_period_schedule cfg_sweep = [(0, 1, 0)]"
    by (simp add: fixed_period_schedule_def cfg_sweep_def)
  have p0: "standard_monthly_payment (initial_state cfg_sweep 100) = 100"
    by (simp add: initial_state_def)
  from C3_payment_recomputed_only_at_period_end[OF b, of s'] sched
  have "standard_monthly_payment s' = standard_monthly_payment (initial_state cfg_sweep 100)"
    by simp
  then show ?thesis using month_body_cfg_sweep_0 sched p0 by simp
qed

subsection \<open>What the overpayment rules log and withdraw\<close>

lemma logged_ok_same:
  "overpayment_events s' = overpayment_events s \<Longrightarrow> logged_ok s s'"
  by (simp add: logged_ok_def)

lemma logged_ok_sweep:
  assumes "0 < mortgage_balance s"
  shows "logged_ok s (end_of_period_sweep c m idx s)"
  using assms by (auto simp: logged_ok_def end_of_period_sweep_def Let_def)

lemma logged_ok_rule1:
  assumes "0 < mortgage_balance s" and "end_of_fixed_period_rule c m s = Some s1"
  shows "logged_ok s s1"
  using assms(2)
proof (cases rule: end_of_fixed_period_rule_cases)
  case no_end
  then show ?thesis by (simp add: logged_ok_same)
next
  case (period_end j p)
  let ?s0 = "s\<lparr> end_of_fixed_period := False \<rparr>"
  have "logged_ok ?s0 (end_of_period_sweep c m j ?s0)"
    by (rule logged_ok_sweep) (simp add: assms(1))
  then show ?thesis unfolding period_end(1) by (simp add: logged_ok_def)
qed

lemma logged_ok_variable:
  assumes "0 < min_overpayment_threshold c" and "0 < mortgage_balance s"
  shows "logged_ok s (variable_rate_rule c m s)"
  using assms by (auto simp: logged_ok_def variable_rate_rule_def Let_def)

lemma rule1_fired_or_untouched:
  assumes "end_of_fixed_period_rule c m s = Some s1"
  shows "end_of_fixed_period s1 \<or> mortgage_balance s1 = mortgage_balance s"
  using assms
proof (cases rule: end_of_fixed_period_rule_cases)
  case no_end
  then show ?thesis by simp
next
  case (period_end j p)
  then show ?thesis by (simp add: end_of_period_sweep_def Let_def)
qed

lemma variable_rule_skipped:
  "end_of_fixed_period s \<Longrightarrow> variable_rate_rule c m s = s"
  by (simp add: variable_rate_rule_def)

lemma logged_ok_rule2:
  assumes "0 < min_overpayment_threshold c" and "0 < mortgage_balance s"
    and "end_of_fixed_period_rule c m s = Some s1"
  shows "logged_ok s1 (variable_rate_rule c m s1)"
proof (cases "end_of_fixed_period s1")
  case True
  then show ?thesis by (simp add: variable_rule_skipped logged_ok_same)
next
  case False
  then have "mortgage_balance s1 = mortgage_balance s"
    using rule1_fired_or_untouched[OF assms(3)] by simp
  then show ?thesis using logged_ok_variable[OF assms(1)] assms(2) by simp
qed

lemma logged_ok_annual: "logged_ok s (annual_rule c m s)"
  by (auto simp: logged_ok_def annual_rule_def Let_def)

lemma positive_log_step:
  "positive_log s \<Longrightarrow> logged_ok s s' \<Longrightarrow> positive_log s'"
  unfolding positive_log_def logged_ok_def
  by (metis Un_iff empty_iff insert_iff list.set(1) list.set(2) set_append)

lemma positive_log_same:
  "overpayment_events s' = overpayment_events s \<Longrightarrow> positive_log s \<Longrightarrow> positive_log s'"
  by (simp add: positive_log_def)

lemma positive_log_month_body:
  assumes th: "0 < min_overpayment_threshold c" and bal: "0 < mortgage_balance s"
    and pl: "positive_log s" and body: "month_body c m s = Some s'"
  shows "positive_log s'"
proof -
  from body obtain s1 where r1: "end_of_fixed_period_rule c m (before_rules c m s) = Some s1"
    and s': "s' = track_progress m (handle_savings c (annual_rule c m (before_annual c m s1)))"
    by (rule month_body_decompose)
  have b0: "0 < mortgage_balance (before_rules c m s)" using bal by simp
  have p0: "positive_log (before_rules c m s)" using pl by (simp add: positive_log_def)
  have p1: "positive_log s1"
    by (rule positive_log_step[OF p0 logged_ok_rule1[OF b0 r1]])
  have p2: "positive_log (variable_rate_rule c m s1)"
    by (rule positive_log_step[OF p1 logged_ok_rule2[OF th b0 r1]])
  have p3: "positive_log (before_annual c m s1)"
    by (rule positive_log_same[OF _ p2]) simp
  have p4: "positive_log (annual_rule c m (before_annual c m s1))"
    by (rule positive_log_step[OF p3 logged_ok_annual])
  show ?thesis unfolding s' by (rule positive_log_same[OF _ p4]) simp
qed

lemma positive_log_loop:
  assumes th: "0 < min_overpayment_threshold c"
    and loop: "sim_loop c [0..<n] (initial_state c p) = Some s"
  shows "positive_log s"
proof (rule sim_loop_upt_rule[OF loop, where I = "\<lambda>m t. positive_log t" and Q = positive_log])
  show "positive_log (initial_state c p)" by (simp add: positive_log_def initial_state_def)
next
  fix m t t1
  assume "positive_log t" "0 < mortgage_balance t" "month_body c m (t\<lparr> lump_sum := 0 \<rparr>) = Some t1"
  then show "positive_log t1"
    using positive_log_month_body[OF th, of "t\<lparr> lump_sum := 0 \<rparr>" m t1]
    by (simp add: positive_log_def)
next
  fix m t assume "positive_log t"
  then show "positive_log (mark_paid_off m (t\<lparr> lump_sum := 0 \<rparr>))"
    by (simp add: positive_log_def)
qed simp_all

lemma state_at_cfg_zero_threshold_3:
  "map_option (map ev_amount \<circ> overpayment_events) (state_at cfg_zero_threshold 3) = Some [0]"
  "map_option (map ev_month \<circ> overpayment_events) (state_at cfg_zero_threshold 3) = Some [2]"
  "map_option (map ev_type \<circ> overpayment_events) (state_at cfg_zero_threshold 3) =
     Some [Variable_rate_period]"
  by (simp_all add: eval_defs cfg_zero_threshold_def cfg_deficit_def upt_conv_Cons Let_def
      numeral_3_eq_3)

text \<open>
  The claim C5 as stated fails. With a minimum threshold of 0 and savings below the
  emergency buffer, the variable-rate rule of month 2 (the first month after the end of
  the last fixed period) finds a candidate amount of 0, which is not below the
  threshold, and logs an event of amount 0.
\<close>

theorem C5_zero_amount_counterexample:
  "min_overpayment_threshold cfg_zero_threshold = 0 \<and>
   map_option (map ev_month \<circ> overpayment_events) (state_at cfg_zero_threshold 3) = Some [2] \<and>
   map_option (map ev_type \<circ> overpayment_events) (state_at cfg_zero_threshold 3) =
     Some [Variable_rate_period] \<and>
   map_option (map ev_amount \<circ> overpayment_events) (state_at cfg_zero_threshold 3) = Some [0]"
  using state_at_cfg_zero_threshold_3 by (simp add: cfg_zero_threshold_def)

text \<open>
  Claim C5, amended. For every run whose minimum overpayment threshold is positive,
  every logged event has a positive amount, and each rule logs at most one event per
  month, of an amount that is positive and at most the mortgage balance outstanding
  immediately before that rule: \<open>before_rules c m s\<close> is the state on entry to rule 1,
  \<open>s1\<close> the state on entry to rule 2, \<open>before_annual c m s1\<close> the state on entry to rule
  3, and \<open>s\<close> any state with a positive balance, as the loop requires of the state in
  which it runs the body of a month. (The bounds for rules 1 and 3 do not depend on the
  threshold.)
\<close>

theorem C5_logged_amounts_positive_and_capped:
  assumes "0 < min_overpayment_threshold c"
  shows "(0 < mortgage_balance s \<and>
            end_of_fixed_period_rule c m (before_rules c m s) = Some s1 \<longrightarrow>
            logged_ok (before_rules c m s) s1 \<and>
            logged_ok s1 (variable_rate_rule c m s1) \<and>
            logged_ok (before_annual c m s1) (annual_rule c m (before_annual c m s1)) \<and>
            overpayment_events (before_annual c m s1) =
              overpayment_events (variable_rate_rule c m s1) \<and>
            month_body c m s =
              Some (track_progress m (handle_savings c (annual_rule c m (before_annual c m s1)))) \<and>
            overpayment_events (track_progress m
                (handle_savings c (annual_rule c m (before_annual c m s1)))) =
              overpayment_events (annual_rule c m (before_annual c m s1))) \<and>
         (run_simulation c = Some r \<longrightarrow>
            (\<forall>e \<in> set (res_overpayment_events r). 0 < ev_amount e))"
proof -
  have a: "logged_ok (before_rules c m s) s1 \<and>
      logged_ok s1 (variable_rate_rule c m s1) \<and>
      logged_ok (before_annual c m s1) (annual_rule c m (before_annual c m s1)) \<and>
      overpayment_events (before_annual c m s1) = overpayment_events (variable_rate_rule c m s1) \<and>
      month_body c m s =
        Some (track_progress m (handle_savings c (annual_rule c m (before_annual c m s1)))) \<and>
      overpayment_events (track_progress m
          (handle_savings c (annual_rule c m (before_annual c m s1)))) =
        overpayment_events (annual_rule c m (before_annual c m s1))"
    if bal: "0 < mortgage_balance s"
      and r1: "end_of_fixed_period_rule c m (before_rules c m s) = Some s1"
  proof -
    have b0: "0 < mortgage_balance (before_rules c m s)" using bal by simp
    have "month_body c m s =
        Some (track_progress m (handle_savings c (annual_rule c m (before_annual c m s1))))"
      using r1 by (simp add: month_body_def)
    then show ?thesis
      using logged_ok_rule1[OF b0 r1] logged_ok_rule2[OF assms b0 r1]
        logged_ok_annual[of "before_annual c m s1" c m]
      by simp
  qed
  have b: "\<forall>e \<in> set (res_overpayment_events r). 0 < ev_amount e"
    if run: "run_simulation c = Some r"
  proof -
    from run obtain p s where
      loop: "sim_loop c [0..<nat (months c)] (initial_state c p) = Some s"
      and ev: "res_overpayment_events r = overpayment_events s"
      by (rule run_simulation_Some)
    from positive_log_loop[OF assms loop] show ?thesis
      by (simp add: positive_log_def ev)
  qed
  show ?thesis using a b by blast
qed

theorem C5_witness:
  "0 < min_overpayment_threshold cfg_sweep \<and>
   0 < mortgage_balance (initial_state cfg_sweep 100) \<and>
   run_simulation cfg_sweep = Some cfg_sweep_result \<and>
   map ev_amount (res_overpayment_events cfg_sweep_result) = [600, 5300] \<and>
   0 < ev_amount (res_overpayment_events cfg_sweep_result ! 0) \<and>
   0 < ev_amount (res_overpayment_events cfg_sweep_result ! 1) \<and>
   end_of_fixed_period_rule cfg_sweep 0 (before_rules cfg_sweep 0 (initial_state cfg_sweep 100)) =
     Some ((before_rules cfg_sweep 0 (initial_state cfg_sweep 100))
             \<lparr> end_of_fixed_period := False \<rparr>) \<and>
   logged_ok
     (before_annual cfg_sweep 0 ((before_rules cfg_sweep 0 (initial_state cfg_sweep 100))
             \<lparr> end_of_fixed_period := False \<rparr>))
     (annual_rule cfg_sweep 0
       (before_annual cfg_sweep 0 ((before_rules cfg_sweep 0 (initial_state cfg_sweep 100))
             \<lparr> end_of_fixed_period := False \<rparr>)))"
proof -
  have th: "0 < min_overpayment_threshold cfg_sweep" by (simp add: cfg_sweep_def)
  have bal: "0 < mortgage_balance (initial_state cfg_sweep 100)"
    by (simp add: initial_state_def cfg_sweep_def)
  have r1: "end_of_fixed_period_rule cfg_sweep 0
      (before_rules cfg_sweep 0 (initial_state cfg_sweep 100)) =
     Some ((before_rules cfg_sweep 0 (initial_state cfg_sweep 100))
             \<lparr> end_of_fixed_period := False \<rparr>)"
    by (simp add: end_of_fixed_period_rule_def fixed_period_schedule_def cfg_sweep_def)
  have ev: "map ev_amount (res_overpayment_events cfg_sweep_result) = [600, 5300]"
    by (simp add: cfg_sweep_result_def)
  have pos: "0 < ev_amount (res_overpayment_events cfg_sweep_result ! 0)"
    "0 < ev_amount (res_overpayment_events cfg_sweep_result ! 1)"
    by (simp_all add: cfg_sweep_result_def)
  from C5_logged_amounts_positive_and_capped[OF th, of "initial_state cfg_sweep 100" 0
      "(before_rules cfg_sweep 0 (initial_state cfg_sweep 100))\<lparr> end_of_fixed_period := False \<rparr>"
      cfg_sweep_result]
    th bal r1 run_cfg_sweep ev pos
  show ?thesis by simp
qed

lemma floor_kept_sweep: "floor_kept c s (end_of_period_sweep c m idx s)"
  by (auto simp: floor_kept_def end_of_period_sweep_def Let_def)

lemma floor_kept_variable:
  assumes "0 < mortgage_balance s"
  shows "floor_kept c s (variable_rate_rule c m s)"
  using assms by (auto simp: floor_kept_def variable_rate_rule_def Let_def)

lemma floor_kept_annual: "floor_kept c s (annual_rule c m s)"
  by (auto simp: floor_kept_def annual_rule_def Let_def)

lemma nonneg_sweep:
  assumes "0 \<le> emergency_buffer c" and "0 \<le> cash_savings s"
  shows "0 \<le> cash_savings (end_of_period_sweep c m idx s)"
  using assms floor_kept_sweep[of c s m idx] by (auto simp: floor_kept_def)

lemma nonneg_rule1:
  assumes "0 \<le> emergency_buffer c" and "0 \<le> cash_savings s"
    and "end_of_fixed_period_rule c m s = Some s1"
  shows "0 \<le> cash_savings s1"
  using assms(3)
proof (cases rule: end_of_fixed_period_rule_cases)
  case no_end
  then show ?thesis using assms(2) by simp
next
  case (period_end j p)
  have "0 \<le> cash_savings (end_of_period_sweep c m j (s\<lparr> end_of_fixed_period := False \<rparr>))"
    by (rule nonneg_sweep[OF assms(1)]) (simp add: assms(2))
  then show ?thesis unfolding period_end(1) by simp
qed

lemma nonneg_variable:
  assumes "0 \<le> emergency_buffer c" and "0 \<le> cash_savings s"
  shows "0 \<le> cash_savings (variable_rate_rule c m s)"
  using assms by (auto simp: variable_rate_rule_def Let_def)

lemma nonneg_annual:
  assumes "0 \<le> emergency_buffer c" and "0 \<le> cash_savings s"
  shows "0 \<le> cash_savings (annual_rule c m s)"
  using assms floor_kept_annual[of c s m] by (auto simp: floor_kept_def)

lemma nonneg_handle:
  assumes "0 \<le> savings_rate c" and "savings_tax_rate c \<le> 1" and "0 \<le> cash_savings s"
  shows "0 \<le> cash_savings (handle_savings c s)"
proof (cases "available_cash s > 0")
  case True
  have "0 \<le> cash_savings s * monthly_savings_rate c * (1 - savings_tax_rate c)"
    using assms by (simp add: monthly_savings_rate_def)
  then show ?thesis using True assms(3) by (simp add: handle_savings_def Let_def)
next
  case False
  then show ?thesis using assms(3) by (simp add: handle_savings_def)
qed

lemma savings_never_negative_month_body:
  assumes ok: "savings_inputs_ok c" and inv: "savings_never_negative s"
    and body: "month_body c m s = Some s'"
  shows "savings_never_negative s'"
proof -
  from ok have buf: "0 \<le> emergency_buffer c" and sr: "0 \<le> savings_rate c"
    and tax: "savings_tax_rate c \<le> 1"
    by (simp_all add: savings_inputs_ok_def)
  from body obtain s1 where r1: "end_of_fixed_period_rule c m (before_rules c m s) = Some s1"
    and s': "s' = track_progress m (handle_savings c (annual_rule c m (before_annual c m s1)))"
    by (rule month_body_decompose)
  from inv have c0: "0 \<le> cash_savings (before_rules c m s)"
    and rws: "\<forall>row \<in> set (rows s). 0 \<le> row_savings_balance row"
    by (simp_all add: savings_never_negative_def)
  have c1: "0 \<le> cash_savings s1" by (rule nonneg_rule1[OF buf c0 r1])
  have c2: "0 \<le> cash_savings (before_annual c m s1)"
    using nonneg_variable[OF buf c1, of m] by simp
  have c3: "0 \<le> cash_savings (annual_rule c m (before_annual c m s1))"
    by (rule nonneg_annual[OF buf c2])
  have c4: "0 \<le> cash_savings (handle_savings c (annual_rule c m (before_annual c m s1)))"
    by (rule nonneg_handle[OF sr tax c3])
  have rows1: "rows s1 = rows s"
    using end_of_fixed_period_rule_frame(1)[OF r1] by simp
  show ?thesis
    unfolding s' savings_never_negative_def
    using c4 rws rows1 by (simp add: track_progress_def)
qed

lemma savings_never_negative_loop:
  assumes ok: "savings_inputs_ok c"
    and loop: "sim_loop c [0..<n] (initial_state c p) = Some s"
  shows "savings_never_negative s"
proof (rule sim_loop_upt_rule[OF loop, where I = "\<lambda>m t. savings_never_negative t"
      and Q = savings_never_negative])
  show "savings_never_negative (initial_state c p)"
    using ok by (simp add: savings_never_negative_def savings_inputs_ok_def initial_state_def)
next
  fix m t t1
  assume "savings_never_negative t" "month_body c m (t\<lparr> lump_sum := 0 \<rparr>) = Some t1"
  then show "savings_never_negative t1"
    using savings_never_negative_month_body[OF ok, of "t\<lparr> lump_sum := 0 \<rparr>" m t1]
    by (simp add: savings_never_negative_def)
next
  fix m t assume "savings_never_negative t"
  then show "savings_never_negative (mark_paid_off m (t\<lparr> lump_sum := 0 \<rparr>))"
    by (simp add: savings_never_negative_def)
qed simp_all

lemma state_at_cfg_negative_buffer_1:
  "map_option (map row_savings_balance \<circ> rows) (state_at cfg_negative_buffer 1) = Some [- 600]"
  "map_option (map ev_amount \<circ> overpayment_events) (state_at cfg_negative_buffer 1) = Some [600]"
  by (simp_all add: eval_defs cfg_negative_buffer_def cfg_deficit_def upt_conv_Cons Let_def)

text \<open>
  The claim C4 as stated fails. \<open>cfg_negative_buffer\<close> starts with savings of 0, which
  is not negative, and an emergency buffer of \<open>- 1000\<close>; the annual rule of month 0 finds
  spare cash of 1000 and withdraws 600, and the row of month 0 records savings of
  \<open>- 600\<close>.
\<close>

theorem C4_negative_savings_counterexample:
  "0 \<le> initial_savings cfg_negative_buffer \<and>
   map_option (map ev_amount \<circ> overpayment_events) (state_at cfg_negative_buffer 1) = Some [600] \<and>
   map_option (map row_savings_balance \<circ> rows) (state_at cfg_negative_buffer 1) = Some [- 600]"
  using state_at_cfg_negative_buffer_1
  by (simp add: cfg_negative_buffer_def cfg_deficit_def)

lemma cfg_sweep_savings_inputs: "savings_inputs_ok cfg_sweep"
  by (simp add: savings_inputs_ok_def cfg_sweep_def)

lemma withdraw_bounds:
  fixes f :: "real \<Rightarrow> real"
  assumes mono: "\<forall>x y. x \<le> y \<longrightarrow> f x \<le> f y" and zero: "f 0 = 0" and rep: "f sv = sv"
    and y: "0 < y" "y \<le> f (sv - b)"
  shows "f (sv - y) \<le> sv" and "f (sv - f (sv - b)) \<le> f (sv - y)"
    and "0 \<le> b \<Longrightarrow> 0 \<le> sv \<Longrightarrow> 0 \<le> f (sv - y)"
proof -
  have "sv - y \<le> sv" using y(1) by simp
  then have "f (sv - y) \<le> f sv" using mono by blast
  then show "f (sv - y) \<le> sv" using rep by simp
  have "sv - f (sv - b) \<le> sv - y" using y(2) by simp
  then show "f (sv - f (sv - b)) \<le> f (sv - y)" using mono by blast
  show "0 \<le> f (sv - y)" if "0 \<le> b" "0 \<le> sv"
  proof -
    have "sv - b \<le> sv" using that(1) by simp
    then have "f (sv - b) \<le> f sv" using mono by blast
    then have "y \<le> sv" using y(2) rep by simp
    then have "0 \<le> sv - y" by simp
    then have "f 0 \<le> f (sv - y)" using mono by blast
    then show ?thesis using zero by simp
  qed
qed

lemma floor_kept_fl_withdraw:
  assumes rw: "rounds_with a f M" and sv: "cash_savings_fl s = Fin sv"
    and rg: "savings_in_range f M c sv"
    and y: "0 < y" "y \<le> f (sv - emergency_buffer c)"
    and s': "cash_savings_fl s' = fsub a (Fin sv) (Fin y)"
  shows "floor_kept_fl f c s s'"
proof -
  from rw have mono: "\<forall>x y. x \<le> y \<longrightarrow> f x \<le> f y" and zero: "f 0 = 0"
    and r: "\<And>x. \<bar>x\<bar> \<le> M \<Longrightarrow> rnd a x = Fin (f x)"
    by (simp_all add: rounds_with_def)
  from rg have rep: "f sv = sv" and b1: "\<bar>sv\<bar> \<le> M"
    and b2: "\<bar>sv - f (sv - emergency_buffer c)\<bar> \<le> M"
    by (simp_all add: savings_in_range_def)
  have "sv - f (sv - emergency_buffer c) \<le> sv - y" "sv - y \<le> sv" using y by simp_all
  then have "\<bar>sv - y\<bar> \<le> M" using b1 b2 by linarith
  then have "cash_savings_fl s' = Fin (f (sv - y))" using s' r by (simp add: fsub_def)
  then show ?thesis
    unfolding floor_kept_fl_def
    using sv withdraw_bounds[OF mono zero rep y] by auto
qed

lemma floor_kept_fl_same:
  assumes "cash_savings_fl s = Fin sv" and "cash_savings_fl s' = cash_savings_fl s"
  shows "floor_kept_fl f c s s'"
  using assms by (simp add: floor_kept_fl_def)

lemma headroom_rounded:
  assumes rw: "rounds_with a f M" and rg: "savings_in_range f M c sv"
  shows "fsub a (Fin sv) (Fin (emergency_buffer c)) = Fin (f (sv - emergency_buffer c))"
  using assms by (simp add: rounds_with_def savings_in_range_def fsub_def)

lemma headroom_fl:
  assumes bal: "flt (Fin 0) bal" and pos: "flt (Fin 0) (py_max (Fin 0) (Fin x))"
  shows "\<exists>y. py_min (py_max (Fin 0) (Fin x)) bal = Fin y \<and> 0 < y \<and> y \<le> x"
proof -
  from pos have p: "0 < x" and mx: "py_max (Fin 0) (Fin x) = Fin x"
    by (auto simp: py_max_def split: if_splits)
  show ?thesis
    unfolding mx using bal p by (cases bal) (auto simp: py_min_def)
qed

lemma floor_kept_fl_sweep:
  assumes rw: "rounds_with a f M" and sv: "cash_savings_fl s = Fin sv"
    and rg: "savings_in_range f M c sv"
    and bal: "flt (Fin 0) (mortgage_balance_fl s)"
  shows "floor_kept_fl f c s (end_of_period_sweep_fl a c m idx s)"
proof -
  let ?x = "f (sv - emergency_buffer c)"
  note sub = headroom_rounded[OF rw rg]
  show ?thesis
  proof (cases "flt (Fin 0) (py_max (Fin 0) (Fin ?x))")
    case True
    from headroom_fl[OF bal True] obtain y where
      y: "py_min (py_max (Fin 0) (Fin ?x)) (mortgage_balance_fl s) = Fin y" "0 < y" "y \<le> ?x"
      by blast
    have "cash_savings_fl (end_of_period_sweep_fl a c m idx s) = fsub a (Fin sv) (Fin y)"
      using True y(1) sv sub by (simp add: end_of_period_sweep_fl_def Let_def)
    then show ?thesis by (rule floor_kept_fl_withdraw[OF rw sv rg y(2,3)])
  next
    case False
    then have "cash_savings_fl (end_of_period_sweep_fl a c m idx s) = cash_savings_fl s"
      using sv sub by (simp add: end_of_period_sweep_fl_def Let_def)
    then show ?thesis by (rule floor_kept_fl_same[OF sv])
  qed
qed

lemma floor_kept_fl_variable:
  assumes rw: "rounds_with a f M" and sv: "cash_savings_fl s = Fin sv"
    and rg: "savings_in_range f M c sv"
    and bal: "flt (Fin 0) (mortgage_balance_fl s)"
  shows "floor_kept_fl f c s (variable_rate_rule_fl a c m s)"
proof -
  let ?x = "f (sv - emergency_buffer c)"
  note sub = headroom_rounded[OF rw rg]
  show ?thesis
  proof (cases "flt (Fin 0) (py_max (Fin 0) (Fin ?x))")
    case True
    from headroom_fl[OF bal True] obtain y where
      y: "py_min (py_max (Fin 0) (Fin ?x)) (mortgage_balance_fl s) = Fin y" "0 < y" "y \<le> ?x"
      by blast
    have "cash_savings_fl (variable_rate_rule_fl a c m s) = fsub a (Fin sv) (Fin y) \<or>
        cash_savings_fl (variable_rate_rule_fl a c m s) = cash_savings_fl s"
      using y(1) sv sub by (simp add: variable_rate_rule_fl_def Let_def)
    then show ?thesis
      using floor_kept_fl_withdraw[OF rw sv rg y(2,3)] floor_kept_fl_same[OF sv] by blast
  next
    case False
    from rw rg have z: "rnd a sv = Fin sv"
      by (simp add: rounds_with_def savings_in_range_def)
    from False have mx: "py_max (Fin 0) (Fin ?x) = Fin 0"
      by (auto simp: py_max_def split: if_splits)
    have "cash_savings_fl (variable_rate_rule_fl a c m s) =
          fsub a (Fin sv) (py_min (Fin 0) (mortgage_balance_fl s)) \<or>
        cash_savings_fl (variable_rate_rule_fl a c m s) = cash_savings_fl s"
      using mx sv sub by (simp add: variable_rate_rule_fl_def Let_def)
    moreover have "py_min (Fin 0) (mortgage_balance_fl s) = Fin 0"
      using bal by (cases "mortgage_balance_fl s") (auto simp: py_min_def)
    moreover have "fsub a (Fin sv) (Fin 0) = Fin sv" using z by (simp add: fsub_def)
    ultimately have "cash_savings_fl (variable_rate_rule_fl a c m s) = cash_savings_fl s"
      using sv by auto
    then show ?thesis by (rule floor_kept_fl_same[OF sv])
  qed
qed

lemma annual_amount_fl:
  assumes pos: "flt (Fin 0) (py_min (py_min (Fin x) lmt) bal)"
  shows "\<exists>y. py_min (py_min (Fin x) lmt) bal = Fin y \<and> 0 < y \<and> y \<le> x"
  using pos by (cases lmt; cases bal) (auto simp: py_min_def split: if_splits)

lemma floor_kept_fl_annual:
  assumes rw: "rounds_with a f M" and sv: "cash_savings_fl s = Fin sv"
    and rg: "savings_in_range f M c sv"
  shows "floor_kept_fl f c s (annual_rule_fl a c m s)"
proof -
  let ?b = "emergency_buffer c"
  note sub = headroom_rounded[OF rw rg]
  let ?p = "py_min (py_min (Fin (f (sv - ?b))) (yearly_overpayment_limit_fl s)) (mortgage_balance_fl s)"
  show ?thesis
  proof (cases "flt (Fin 0) ?p")
    case True
    from annual_amount_fl[OF True] obtain y where y: "?p = Fin y" "0 < y" "y \<le> f (sv - ?b)"
      by blast
    have "cash_savings_fl (annual_rule_fl a c m s) = fsub a (Fin sv) (Fin y) \<or>
        cash_savings_fl (annual_rule_fl a c m s) = cash_savings_fl s"
      using y(1) sv sub by (simp add: annual_rule_fl_def Let_def)
    then show ?thesis
      using floor_kept_fl_withdraw[OF rw sv rg y(2,3)] floor_kept_fl_same[OF sv] by blast
  next
    case False
    then have "cash_savings_fl (annual_rule_fl a c m s) = cash_savings_fl s"
      using sv sub by (simp add: annual_rule_fl_def Let_def)
    then show ?thesis by (rule floor_kept_fl_same[OF sv])
  qed
qed

lemma double_rnd_headroom:
  "double_rnd (7777 - 7264033520064921 / 2 ^ 41) = Fin (1229721292295373 / 2 ^ 38)"
proof -
  have l: "\<lfloor>log 2 \<bar>7777 - 7264033520064921 / 2 ^ 41 :: real\<bar>\<rfloor> = 12"
    by (subst floor_log_eq_powr_iff) simp_all
  have "round_double (7777 - 7264033520064921 / 2 ^ 41) = 1229721292295373 / 2 ^ 38"
    unfolding round_double_def l by (simp add: pow2_def round_half_even_def Let_def)
  then show ?thesis by (simp add: double_rnd_def Let_def)
qed

lemma double_rnd_withdrawal:
  "double_rnd (7777 - 1229721292295373 / 2 ^ 38) = Fin (908004190008115 / 2 ^ 38)"
proof -
  have l: "\<lfloor>log 2 \<bar>7777 - 1229721292295373 / 2 ^ 38 :: real\<bar>\<rfloor> = 11"
    by (subst floor_log_eq_powr_iff) simp_all
  have "round_double (7777 - 1229721292295373 / 2 ^ 38) = 908004190008115 / 2 ^ 38"
    unfolding round_double_def l by (simp add: pow2_def round_half_even_def Let_def)
  then show ?thesis by (simp add: double_rnd_def Let_def)
qed

lemma annual_rule_fl_below_floor:
  "cash_savings_fl
     (annual_rule_fl (double_arith p) cfg_rounding m
        (s\<lparr> cash_savings_fl := Fin 7777, yearly_overpayment_limit_fl := Fin 5000,
            mortgage_balance_fl := Fin 49000, overpayment_made_this_year_fl := False \<rparr>)) =
   Fin (908004190008115 / 2 ^ 38)"
  "(908004190008115 / 2 ^ 38 :: real) < emergency_buffer cfg_rounding"
  "emergency_buffer cfg_rounding - 908004190008115 / 2 ^ 38 = 1 / 2 ^ 41"
proof -
  have b: "emergency_buffer cfg_rounding = 7264033520064921 / 2 ^ 41"
    and t: "min_overpayment_threshold cfg_rounding = 500"
    by (simp_all add: cfg_rounding_def cfg_sweep_def)
  have h: "fsub (double_arith p) (Fin 7777) (Fin (7264033520064921 / 2 ^ 41)) =
      Fin (1229721292295373 / 2 ^ 38)"
    using double_rnd_headroom by (simp add: fsub_def double_arith_def)
  have w: "fsub (double_arith p) (Fin 7777) (Fin (1229721292295373 / 2 ^ 38)) =
      Fin (908004190008115 / 2 ^ 38)"
    using double_rnd_withdrawal by (simp add: fsub_def double_arith_def)
  show "cash_savings_fl
     (annual_rule_fl (double_arith p) cfg_rounding m
        (s\<lparr> cash_savings_fl := Fin 7777, yearly_overpayment_limit_fl := Fin 5000,
            mortgage_balance_fl := Fin 49000, overpayment_made_this_year_fl := False \<rparr>)) =
   Fin (908004190008115 / 2 ^ 38)"
    using h[simplified] w[simplified] by (simp add: annual_rule_fl_def Let_def b t py_min_def)
  show "(908004190008115 / 2 ^ 38 :: real) < emergency_buffer cfg_rounding"
    by (simp add: b)
  show "emergency_buffer cfg_rounding - 908004190008115 / 2 ^ 38 = 1 / 2 ^ 41"
    by (simp add: b)
qed

text \<open>
  Claim C4, amended. In the arithmetic of the source, with a rounding \<open>f\<close> that is
  monotone and keeps zero and with no overflow, each of the three overpayment rules
  either leaves a savings balance \<open>sv\<close> as it was or lowers it to no less than
  \<open>f (sv - f (sv - buffer))\<close>, the emergency buffer as the rule's two subtractions
  reproduce it: the buffer itself when they are exact, and possibly one rounding below
  it otherwise (in IEEE doubles, lemma \<open>annual_rule_fl_below_floor\<close>: savings of 7777
  and a buffer of \<open>3303.2999999999997\<close> leave \<open>3303.2999999999993\<close>). When the buffer
  and the savings are not negative, the rule leaves savings that are not negative.
  Rules 1 and 2 are taken in a state with a positive mortgage balance, the only kind of
  state in which the loop runs them. In exact arithmetic, for every run whose initial
  savings are at least 0, whose emergency buffer is at least 0, whose savings rate is at
  least 0 and whose savings tax rate is at most 1, every recorded savings balance and the
  final savings are at least 0.
\<close>

theorem C4_savings_floor_and_sign:
  "(rounds_with a f M \<and> cash_savings_fl s = Fin sv \<and> savings_in_range f M c sv \<and>
    flt (Fin 0) (mortgage_balance_fl s) \<longrightarrow>
      floor_kept_fl f c s (end_of_period_sweep_fl a c m idx s) \<and>
      floor_kept_fl f c s (variable_rate_rule_fl a c m s)) \<and>
   (rounds_with a f M \<and> cash_savings_fl s = Fin sv \<and> savings_in_range f M c sv \<longrightarrow>
      floor_kept_fl f c s (annual_rule_fl a c m s)) \<and>
   (savings_inputs_ok c \<and> run_simulation c = Some r \<longrightarrow>
      0 \<le> final_savings r \<and> (\<forall>row \<in> set (res_rows r). 0 \<le> row_savings_balance row))"
proof -
  have "0 \<le> final_savings r \<and> (\<forall>row \<in> set (res_rows r). 0 \<le> row_savings_balance row)"
    if ok: "savings_inputs_ok c" and run: "run_simulation c = Some r"
  proof -
    from run obtain p t where
      loop: "sim_loop c [0..<nat (months c)] (initial_state c p) = Some t"
      and r: "res_rows r = rows t" "final_savings r = cash_savings t"
      by (rule run_simulation_Some)
    from savings_never_negative_loop[OF ok loop] show ?thesis
      by (simp add: savings_never_negative_def r)
  qed
  then have sign: "savings_inputs_ok c \<and> run_simulation c = Some r \<longrightarrow>
      0 \<le> final_savings r \<and> (\<forall>row \<in> set (res_rows r). 0 \<le> row_savings_balance row)"
    by simp
  have rules12: "rounds_with a f M \<and> cash_savings_fl s = Fin sv \<and> savings_in_range f M c sv \<and>
      flt (Fin 0) (mortgage_balance_fl s) \<longrightarrow>
      floor_kept_fl f c s (end_of_period_sweep_fl a c m idx s) \<and>
      floor_kept_fl f c s (variable_rate_rule_fl a c m s)"
    using floor_kept_fl_sweep[of a f M s sv c m idx] floor_kept_fl_variable[of a f M s sv c m]
    by simp
  have rule3: "rounds_with a f M \<and> cash_savings_fl s = Fin sv \<and> savings_in_range f M c sv \<longrightarrow>
      floor_kept_fl f c s (annual_rule_fl a c m s)"
    using floor_kept_fl_annual[of a f M s sv c m] by simp
  show ?thesis using rules12 rule3 sign by (intro conjI)
qed

lemma exact_rounds: "rounds_with (exact_arith p) id M"
  by (simp add: rounds_with_def exact_arith_def)

lemma annual_rule_fl_cfg_sweep:
  "cash_savings_fl (initial_state_fl (exact_arith inf_payment) cfg_sweep) = Fin 100000"
  "cash_savings_fl (annual_rule_fl (exact_arith inf_payment) cfg_sweep 0
     (initial_state_fl (exact_arith inf_payment) cfg_sweep)) = Fin 99400"
  by (simp_all add: annual_rule_fl_def initial_state_fl_def exact_arith_def cfg_sweep_def
      fsub_def py_min_def Let_def)

theorem C4_witness:
  "rounds_with (exact_arith inf_payment) id 1000000 \<and>
   cash_savings_fl (initial_state_fl (exact_arith inf_payment) cfg_sweep) = Fin 100000 \<and>
   savings_in_range id 1000000 cfg_sweep 100000 \<and>
   floor_kept_fl id cfg_sweep (initial_state_fl (exact_arith inf_payment) cfg_sweep)
     (annual_rule_fl (exact_arith inf_payment) cfg_sweep 0
        (initial_state_fl (exact_arith inf_payment) cfg_sweep)) \<and>
   cash_savings_fl (annual_rule_fl (exact_arith inf_payment) cfg_sweep 0
     (initial_state_fl (exact_arith inf_payment) cfg_sweep)) = Fin 99400 \<and>
   id (100000 - id (100000 - emergency_buffer cfg_sweep)) = (1000 :: real) \<and>
   savings_inputs_ok cfg_sweep \<and> run_simulation cfg_sweep = Some cfg_sweep_result \<and>
   final_savings cfg_sweep_result = 94900 \<and>
   map row_savings_balance (res_rows cfg_sweep_result) = [99800, 94900]"
proof -
  have rg: "savings_in_range id 1000000 cfg_sweep 100000"
    by (simp add: savings_in_range_def cfg_sweep_def)
  have v: "final_savings cfg_sweep_result = 94900"
    "map row_savings_balance (res_rows cfg_sweep_result) = [99800, 94900]"
    "id (100000 - id (100000 - emergency_buffer cfg_sweep)) = (1000 :: real)"
    by (simp_all add: cfg_sweep_result_def cfg_sweep_def)
  from C4_savings_floor_and_sign[of "exact_arith inf_payment" id 1000000
      "initial_state_fl (exact_arith inf_payment) cfg_sweep" 100000 cfg_sweep 0 0 cfg_sweep_result]
    exact_rounds[of inf_payment 1000000] annual_rule_fl_cfg_sweep rg
    cfg_sweep_savings_inputs run_cfg_sweep v
  show ?thesis by simp
qed

subsection \<open>The annual allowance\<close>

lemma annual_total_append:
  "annual_total k (es @ fs) = annual_total k es + annual_total k fs"
  by (simp add: annual_total_def logged_amounts_def)

lemma sweep_count_append:
  "sweep_count k (es @ fs) = sweep_count k es + sweep_count k fs"
  by (simp add: sweep_count_def)

lemma other_year_events:
  assumes "\<forall>e \<in> set es. ev_month e div 12 \<noteq> k"
  shows "annual_total k es = 0" and "sweep_count k es = 0"
proof -
  have "filter (\<lambda>e. is_annual e \<and> ev_month e div 12 = k) es = []"
    using assms by (auto simp: filter_empty_conv)
  then show "annual_total k es = 0" by (simp add: annual_total_def logged_amounts_def)
  have "filter (\<lambda>e. is_period_end e \<and> ev_month e div 12 = k) es = []"
    using assms by (auto simp: filter_empty_conv)
  then show "sweep_count k es = 0" by (simp add: sweep_count_def)
qed

lemma slack_same:
  assumes "overpayment_events s' = overpayment_events s"
    and "overpayment_made_this_year s' = overpayment_made_this_year s"
  shows "allowance_slack k L s' = allowance_slack k L s"
  using assms by (simp add: allowance_slack_def)

lemma flag_allowance_le:
  assumes "0 \<le> L"
  shows "(real n + (if b then 1 else 0)) * L - a \<le> (real n + 1) * L - a"
proof (cases b)
  case True
  then show ?thesis by simp
next
  case False
  have "real n * L \<le> real n * L + L" using assms by simp
  then show ?thesis using False by (simp add: distrib_right)
qed

lemma slack_sweep:
  assumes "0 \<le> L" and "m div 12 = k"
  shows "allowance_slack k L s \<le> allowance_slack k L (end_of_period_sweep c m idx s)"
proof (cases "0 < max 0 (cash_savings s - emergency_buffer c)")
  case False
  then have "overpayment_events (end_of_period_sweep c m idx s) = overpayment_events s"
    and "overpayment_made_this_year (end_of_period_sweep c m idx s) = overpayment_made_this_year s"
    by (simp_all add: end_of_period_sweep_def Let_def)
  then show ?thesis by (simp add: allowance_slack_def)
next
  case True
  define e where "e = \<lparr> ev_month = m,
    ev_amount = min (max 0 (cash_savings s - emergency_buffer c)) (mortgage_balance s),
    ev_type = End_of_fixed_period (idx + 1) \<rparr>"
  from True have ev: "overpayment_events (end_of_period_sweep c m idx s) = overpayment_events s @ [e]"
    and fl: "\<not> overpayment_made_this_year (end_of_period_sweep c m idx s)"
    by (auto simp: end_of_period_sweep_def Let_def e_def)
  have a: "annual_total k [e] = 0"
    by (simp add: annual_total_def logged_amounts_def is_annual_def e_def)
  have b: "sweep_count k [e] = 1"
    using assms(2) by (simp add: sweep_count_def is_period_end_def e_def)
  have "allowance_slack k L (end_of_period_sweep c m idx s) =
      (real (sweep_count k (overpayment_events s)) + 1) * L - annual_total k (overpayment_events s)"
    using fl a b by (simp add: allowance_slack_def ev annual_total_append sweep_count_append)
  moreover have "allowance_slack k L s \<le>
      (real (sweep_count k (overpayment_events s)) + 1) * L - annual_total k (overpayment_events s)"
    unfolding allowance_slack_def by (rule flag_allowance_le[OF assms(1)])
  ultimately show ?thesis by simp
qed

lemma slack_rule1:
  assumes "0 \<le> L" and "m div 12 = k" and "end_of_fixed_period_rule c m s = Some s1"
  shows "allowance_slack k L s \<le> allowance_slack k L s1"
  using assms(3)
proof (cases rule: end_of_fixed_period_rule_cases)
  case no_end
  then show ?thesis by (simp add: allowance_slack_def)
next
  case (period_end j p)
  let ?s0 = "s\<lparr> end_of_fixed_period := False \<rparr>"
  have "allowance_slack k L s = allowance_slack k L ?s0"
    by (simp add: allowance_slack_def)
  also have "\<dots> \<le> allowance_slack k L (end_of_period_sweep c m j ?s0)"
    by (rule slack_sweep[OF assms(1,2)])
  also have "\<dots> = allowance_slack k L s1"
    unfolding period_end(1) by (simp add: allowance_slack_def)
  finally show ?thesis .
qed

lemma slack_variable:
  "allowance_slack k L (variable_rate_rule c m s) = allowance_slack k L s"
proof -
  have fl: "overpayment_made_this_year (variable_rate_rule c m s) = overpayment_made_this_year s"
    by simp
  have "\<exists>new. overpayment_events (variable_rate_rule c m s) = overpayment_events s @ new \<and>
      (\<forall>e \<in> set new. ev_type e = Variable_rate_period)"
    by (simp add: variable_rate_rule_def Let_def)
  then obtain new where ev: "overpayment_events (variable_rate_rule c m s) = overpayment_events s @ new"
    and ty: "\<forall>e \<in> set new. ev_type e = Variable_rate_period"
    by blast
  have "filter (\<lambda>e. is_annual e \<and> ev_month e div 12 = k) new = []"
    using ty by (auto simp: filter_empty_conv is_annual_def)
  then have a: "annual_total k new = 0" by (simp add: annual_total_def logged_amounts_def)
  have "filter (\<lambda>e. is_period_end e \<and> ev_month e div 12 = k) new = []"
    using ty by (auto simp: filter_empty_conv is_period_end_def)
  then have b: "sweep_count k new = 0" by (simp add: sweep_count_def)
  show ?thesis
    unfolding allowance_slack_def ev annual_total_append sweep_count_append
    using fl a b by simp
qed

lemma slack_annual:
  assumes "0 \<le> L" and "m div 12 = k" and "yearly_overpayment_limit s = L"
  shows "allowance_slack k L s \<le> allowance_slack k L (annual_rule c m s)"
proof (cases "overpayment_events (annual_rule c m s) = overpayment_events s")
  case True
  have "(if overpayment_made_this_year s then (1::real) else 0) \<le>
      (if overpayment_made_this_year (annual_rule c m s) then 1 else 0)"
    by (simp add: annual_rule_def Let_def)
  then have "(if overpayment_made_this_year s then 1 else 0) * L \<le>
      (if overpayment_made_this_year (annual_rule c m s) then 1 else 0) * L"
    using assms(1) by (intro mult_right_mono) simp_all
  then show ?thesis unfolding allowance_slack_def True by (simp add: algebra_simps)
next
  case False
  let ?p = "min (cash_savings s - emergency_buffer c)
              (min (yearly_overpayment_limit s) (mortgage_balance s))"
  let ?e = "\<lparr> ev_month = m, ev_amount = ?p, ev_type = Annual_overpayment (current_year s + 1) \<rparr>"
  from False have fired: "\<not> overpayment_made_this_year s"
    and ev: "overpayment_events (annual_rule c m s) = overpayment_events s @ [?e]"
    and fl: "overpayment_made_this_year (annual_rule c m s)"
    by (auto simp: annual_rule_def Let_def split: if_splits)
  have a: "annual_total k [?e] = ?p"
    using assms(2) by (simp add: annual_total_def logged_amounts_def is_annual_def)
  have b: "sweep_count k [?e] = 0"
    by (simp add: sweep_count_def is_period_end_def)
  have "?p \<le> L" using assms(3) by simp
  then show ?thesis
    unfolding allowance_slack_def ev annual_total_append sweep_count_append
    using fired fl a b by (simp add: algebra_simps)
qed

lemma slack_month_body:
  assumes L: "0 \<le> L" and k: "m div 12 = k"
    and lim: "yearly_overpayment_limit (before_rules c m s) = L"
    and body: "month_body c m s = Some s'"
  shows "allowance_slack k L (before_rules c m s) \<le> allowance_slack k L s'"
    and "yearly_overpayment_limit s' = L"
proof -
  from body obtain s1 where r1: "end_of_fixed_period_rule c m (before_rules c m s) = Some s1"
    and s': "s' = track_progress m (handle_savings c (annual_rule c m (before_annual c m s1)))"
    by (rule month_body_decompose)
  have l1: "yearly_overpayment_limit s1 = L"
    using end_of_fixed_period_rule_frame(4)[OF r1] lim by simp
  have l2: "yearly_overpayment_limit (before_annual c m s1) = L"
    using l1 by simp
  show "yearly_overpayment_limit s' = L"
    unfolding s' using l2 by simp
  have a: "allowance_slack k L (before_rules c m s) \<le> allowance_slack k L s1"
    by (rule slack_rule1[OF L k r1])
  have b: "allowance_slack k L (before_annual c m s1) = allowance_slack k L s1"
    using slack_variable[of k L c m s1] by (simp add: allowance_slack_def)
  have c: "allowance_slack k L (before_annual c m s1) \<le>
      allowance_slack k L (annual_rule c m (before_annual c m s1))"
    by (rule slack_annual[OF L k l2])
  have d: "allowance_slack k L s' = allowance_slack k L (annual_rule c m (before_annual c m s1))"
    unfolding s' by (simp add: allowance_slack_def)
  show "allowance_slack k L (before_rules c m s) \<le> allowance_slack k L s'"
    using a b c d by simp
qed

lemma slack_bound:
  assumes "0 \<le> L" and "0 \<le> allowance_slack k L t"
  shows "year_bound k L t"
proof -
  have "(if overpayment_made_this_year t then 1 else 0) * L \<le> L"
    using assms(1) by simp
  then show ?thesis
    using assms(2) unfolding year_bound_def allowance_slack_def by (simp add: algebra_simps)
qed

lemma year_bound_other_month:
  assumes yb: "year_bound k L s" and k: "m div 12 \<noteq> k" and body: "month_body c m s = Some s'"
  shows "year_bound k L s'"
proof -
  from extends_log_month_body[OF body] obtain new where
    ev: "overpayment_events s' = overpayment_events s @ new"
    and mon: "\<forall>e \<in> set new. ev_month e = m"
    by (auto simp: extends_log_def)
  have "\<forall>e \<in> set new. ev_month e div 12 \<noteq> k" using mon k by simp
  from other_year_events[OF this] show ?thesis
    using yb unfolding year_bound_def ev annual_total_append sweep_count_append by simp
qed

lemma year_inv_later:
  assumes "12 * k < n" and "year_bound k L t"
    and "n < 12 * k + 12 \<Longrightarrow> yearly_overpayment_limit t = L \<and> 0 \<le> allowance_slack k L t"
  shows "year_inv k L s0 n t"
proof -
  have "n \<noteq> 12 * k" using assms(1) by simp
  then show ?thesis
    unfolding year_inv_def using assms by (simp add: year_bound_def)
qed

lemma year_inv_step:
  assumes L: "L = 0.10 * mortgage_balance s0" and pos: "0 < mortgage_balance s0"
    and old: "\<forall>e \<in> set (overpayment_events s0). ev_month e < 12 * k"
    and inv: "year_inv k L s0 m t" and m: "12 * k \<le> m"
    and body: "month_body c m (t\<lparr> lump_sum := 0 \<rparr>) = Some t1"
  shows "year_inv k L s0 (Suc m) t1"
proof -
  let ?t0 = "t\<lparr> lump_sum := 0 \<rparr>"
  have L0: "0 \<le> L" using L pos by simp
  consider (first) "m = 12 * k" | (inside) "12 * k < m" "m < 12 * k + 12" | (after) "12 * k + 12 \<le> m"
    using m by linarith
  then show ?thesis
  proof cases
    case first
    then have t: "t = s0" using inv by (simp add: year_inv_def)
    have k: "m div 12 = k" using first by simp
    have m0: "m mod 12 = 0" using first by simp
    have lim: "yearly_overpayment_limit (before_rules c m ?t0) = L"
      using m0 t L by (simp add: before_rules_def reset_yearly_allowance_def)
    have fl: "\<not> overpayment_made_this_year (before_rules c m ?t0)"
      using m0 by (simp add: before_rules_def reset_yearly_allowance_def)
    have "\<forall>e \<in> set (overpayment_events s0). ev_month e div 12 \<noteq> k"
    proof
      fix e assume "e \<in> set (overpayment_events s0)"
      then have "ev_month e < 12 * k" using old by simp
      then have "ev_month e div 12 < k" by (simp add: less_mult_imp_div_less mult.commute)
      then show "ev_month e div 12 \<noteq> k" by simp
    qed
    from other_year_events[OF this]
    have z: "allowance_slack k L (before_rules c m ?t0) = 0"
      using fl t by (simp add: allowance_slack_def)
    from slack_month_body[OF L0 k lim body] z
    have s1: "0 \<le> allowance_slack k L t1" and l1: "yearly_overpayment_limit t1 = L"
      by simp_all
    have "12 * k < Suc m" using first by simp
    then show ?thesis
      by (rule year_inv_later[OF _ slack_bound[OF L0 s1]]) (simp add: s1 l1)
  next
    case inside
    then have k: "m div 12 = k" by (simp add: div_nat_eqI mult.commute)
    have m0: "m mod 12 \<noteq> 0"
    proof
      assume "m mod 12 = 0"
      then have "m = 12 * (m div 12)" by presburger
      then show False using inside k by simp
    qed
    from inv inside have lt: "yearly_overpayment_limit t = L" and sl: "0 \<le> allowance_slack k L t"
      by (simp_all add: year_inv_def)
    have lim: "yearly_overpayment_limit (before_rules c m ?t0) = L"
      using m0 lt by (simp add: before_rules_def reset_yearly_allowance_def)
    have "allowance_slack k L (before_rules c m ?t0) = allowance_slack k L t"
      using m0 by (simp add: allowance_slack_def before_rules_def reset_yearly_allowance_def)
    with slack_month_body[OF L0 k lim body] sl
    have s1: "0 \<le> allowance_slack k L t1" and l1: "yearly_overpayment_limit t1 = L"
      by simp_all
    have "12 * k < Suc m" using inside by simp
    then show ?thesis
      by (rule year_inv_later[OF _ slack_bound[OF L0 s1]]) (simp add: s1 l1)
  next
    case after
    have "(12 * Suc k) div 12 \<le> m div 12"
      using after by (intro div_le_mono) simp
    then have k: "m div 12 \<noteq> k" by simp
    have "12 * k < m" using after by simp
    with inv have "year_bound k L t"
      by (simp add: year_inv_def year_bound_def)
    then have yb: "year_bound k L ?t0"
      by (simp add: year_bound_def)
    have later: "12 * k < Suc m" and out: "\<not> Suc m < 12 * k + 12"
      using after by simp_all
    show ?thesis
      by (rule year_inv_later[OF later year_bound_other_month[OF yb k body]]) (simp add: out)
  qed
qed

lemma year_inv_final:
  assumes L: "L = 0.10 * mortgage_balance s0" and pos: "0 < mortgage_balance s0"
    and old: "\<forall>e \<in> set (overpayment_events s0). ev_month e < 12 * k"
    and inv: "year_inv k L s0 m t" and m: "12 * k \<le> m"
  shows "year_bound k L t"
proof (cases "m = 12 * k")
  case True
  then have t: "t = s0" using inv by (simp add: year_inv_def)
  have "\<forall>e \<in> set (overpayment_events s0). ev_month e div 12 \<noteq> k"
  proof
    fix e assume "e \<in> set (overpayment_events s0)"
    then have "ev_month e < 12 * k" using old by simp
    then have "ev_month e div 12 < k" by (simp add: less_mult_imp_div_less mult.commute)
    then show "ev_month e div 12 \<noteq> k" by simp
  qed
  from other_year_events[OF this] show ?thesis
    using t L pos by (simp add: year_bound_def)
next
  case False
  then have "12 * k < m" using m by simp
  then show ?thesis using inv by (simp add: year_inv_def year_bound_def)
qed

lemma year_bound_loop:
  assumes L: "L = 0.10 * mortgage_balance s0" and pos: "0 < mortgage_balance s0"
    and old: "\<forall>e \<in> set (overpayment_events s0). ev_month e < 12 * k"
    and loop: "sim_loop c [12 * k..<n] s0 = Some s" and n: "12 * k \<le> n"
  shows "year_bound k L s"
proof (rule sim_loop_upt_rule[OF loop n, where I = "year_inv k L s0" and Q = "year_bound k L"])
  show "year_inv k L s0 (12 * k) s0" by (simp add: year_inv_def)
next
  fix m t t1
  assume "12 * k \<le> m" "year_inv k L s0 m t" "month_body c m (t\<lparr> lump_sum := 0 \<rparr>) = Some t1"
  then show "year_inv k L s0 (Suc m) t1"
    using year_inv_step[OF L pos old] by blast
next
  fix m t
  assume "12 * k \<le> m" "year_inv k L s0 m t"
  then show "year_bound k L t" using year_inv_final[OF L pos old] by blast
next
  fix m t
  assume "12 * k \<le> m" "year_inv k L s0 m t"
  then have "year_bound k L t" using year_inv_final[OF L pos old] by blast
  then show "year_bound k L (mark_paid_off m (t\<lparr> lump_sum := 0 \<rparr>))"
    by (simp add: year_bound_def)
qed

lemma top_of_month_facts:
  assumes "sim_loop c [0..<n] (initial_state c p) = Some s"
  shows "length (rows s) \<le> n" and "\<forall>e \<in> set (overpayment_events s). ev_month e < n"
proof -
  have "length (rows s) \<le> n \<and> (\<forall>e \<in> set (overpayment_events s). ev_month e < n)"
  proof (rule sim_loop_upt_rule[OF assms, where I = log_inv
        and Q = "\<lambda>t. length (rows t) \<le> n \<and> (\<forall>e \<in> set (overpayment_events t). ev_month e < n)"])
    show "log_inv 0 (initial_state c p)"
      by (simp add: log_inv_def cumulative_matches_log_def initial_state_def logged_amounts_def)
  next
    fix m t t1
    assume "log_inv m t" "month_body c m (t\<lparr> lump_sum := 0 \<rparr>) = Some t1"
    then show "log_inv (Suc m) t1" by (rule log_inv_step)
  next
    fix m t assume "m \<le> n" "log_inv m t"
    then show "length (rows t) \<le> n \<and> (\<forall>e \<in> set (overpayment_events t). ev_month e < n)"
      by (auto simp: log_inv_def)
  next
    fix m t assume "m < n" "log_inv m t"
    then show "length (rows (mark_paid_off m (t\<lparr> lump_sum := 0 \<rparr>))) \<le> n \<and>
        (\<forall>e \<in> set (overpayment_events (mark_paid_off m (t\<lparr> lump_sum := 0 \<rparr>))). ev_month e < n)"
      by (auto simp: log_inv_def)
  qed simp
  then show "length (rows s) \<le> n" and "\<forall>e \<in> set (overpayment_events s). ev_month e < n"
    by simp_all
qed

lemma stopped_loop_keeps_rows:
  assumes "sim_loop c [a..<b] s0 = Some s" and "mortgage_paid_off s0 \<or> mortgage_balance s0 \<le> 0"
  shows "rows s = rows s0"
proof (cases "a < b")
  case False
  then show ?thesis using assms(1) by simp
next
  case True
  then have "[a..<b] = a # [Suc a..<b]" by (simp add: upt_conv_Cons)
  then show ?thesis using assms by (auto split: if_splits)
qed

lemma run_cfg_two_periods:
  "map_option (map ev_month \<circ> res_overpayment_events) (run_simulation cfg_two_periods) =
     Some [0, 6, 8, 12, 14, 16, 18, 20]"
  "map_option (map ev_type \<circ> res_overpayment_events) (run_simulation cfg_two_periods) =
     Some [Annual_overpayment 1, End_of_fixed_period 1, Annual_overpayment 1,
           End_of_fixed_period 2, Variable_rate_period, Variable_rate_period,
           Variable_rate_period, Variable_rate_period]"
  "map_option (map ev_amount \<circ> res_overpayment_events) (run_simulation cfg_two_periods) =
     Some [1200, 2580, 740, 1480, 1665 / 2, 1665 / 2, 1665 / 2, 1665 / 2]"
  "map_option (annual_total 0 \<circ> res_overpayment_events) (run_simulation cfg_two_periods) =
     Some 1940"
  by (simp_all add: eval_defs cfg_two_periods_def upt_conv_Cons Let_def
      annual_total_def logged_amounts_def is_annual_def)

lemma state_at_cfg_two_periods_0:
  "map_option mortgage_balance (state_at cfg_two_periods 0) = Some 12000"
  by (simp add: eval_defs cfg_two_periods_def Let_def)

text \<open>
  The claim C2 as stated fails. On \<open>cfg_two_periods\<close> the balance at the top of month 0
  is 12000, so the allowance of year 0 is 1200. The annual rule uses it in full in month
  0; the sweep at the end of the first fixed period (month 6) clears the flag; the annual
  rule fires again in month 8 and overpays 740. The annual-allowance events of year 0
  sum to 1940.
\<close>

theorem C2_allowance_exceeded_counterexample:
  "map_option mortgage_balance (state_at cfg_two_periods 0) = Some 12000 \<and>
   map_option (map ev_month \<circ> res_overpayment_events) (run_simulation cfg_two_periods) =
     Some [0, 6, 8, 12, 14, 16, 18, 20] \<and>
   map_option (map ev_type \<circ> res_overpayment_events) (run_simulation cfg_two_periods) =
     Some [Annual_overpayment 1, End_of_fixed_period 1, Annual_overpayment 1,
           End_of_fixed_period 2, Variable_rate_period, Variable_rate_period,
           Variable_rate_period, Variable_rate_period] \<and>
   map_option (map ev_amount \<circ> res_overpayment_events) (run_simulation cfg_two_periods) =
     Some [1200, 2580, 740, 1480, 1665 / 2, 1665 / 2, 1665 / 2, 1665 / 2] \<and>
   map_option (annual_total 0 \<circ> res_overpayment_events) (run_simulation cfg_two_periods) =
     Some 1940 \<and>
   (0.10 :: real) * 12000 < 1940"
  using run_cfg_two_periods state_at_cfg_two_periods_0 by simp

text \<open>
  Claim C2, amended. For every calendar year \<open>k\<close> whose first month is simulated, the
  amounts of the annual-allowance events logged in that year sum to at most
  \<open>(1 + n)\<close> times 10 per cent of the mortgage balance at the top of the year's first
  month, where \<open>n\<close> is the number of end-of-fixed-period sweeps logged in that year.
  In a year without such a sweep the sum is at most 10 per cent of that balance. (Every
  sweep clears the flag \<open>overpayment_made_this_year\<close>, line 347, and so grants the annual
  rule one more use of the same limit.)
\<close>

theorem C2_annual_allowance_bound:
  assumes "run_simulation c = Some r"
    and "state_at c (12 * k) = Some s0"
    and "12 * k < length (res_rows r)"
  shows "annual_total k (res_overpayment_events r) \<le>
           (1 + real (sweep_count k (res_overpayment_events r))) * (0.10 * mortgage_balance s0)"
proof -
  from assms(1) obtain p s where
    ip: "initial_payment c = Some p"
    and loop: "sim_loop c [0..<nat (months c)] (initial_state c p) = Some s"
    and r: "res_rows r = rows s" "res_overpayment_events r = overpayment_events s"
    by (rule run_simulation_Some)
  let ?n = "nat (months c)"
  from assms(2) ip have start: "sim_loop c [0..<12 * k] (initial_state c p) = Some s0"
    by (simp add: state_at_def)
  have len0: "length (rows s0) \<le> 12 * k"
    and old: "\<forall>e \<in> set (overpayment_events s0). ev_month e < 12 * k"
    using top_of_month_facts[OF start] by simp_all
  have "length (rows s) \<le> ?n" using top_of_month_facts(1)[OF loop] .
  then have n: "12 * k \<le> ?n" using assms(3) r by simp
  then have "[0..<?n] = [0..<12 * k] @ [12 * k..<?n]"
    by (metis le_add_diff_inverse upt_add_eq_append zero_le)
  then have rest: "sim_loop c [12 * k..<?n] s0 = Some s"
    using loop start by (simp add: sim_loop_append)
  have running: "\<not> (mortgage_paid_off s0 \<or> mortgage_balance s0 \<le> 0)"
  proof
    assume "mortgage_paid_off s0 \<or> mortgage_balance s0 \<le> 0"
    from stopped_loop_keeps_rows[OF rest this] show False
      using len0 assms(3) r by simp
  qed
  then have pos: "0 < mortgage_balance s0" by simp
  from year_bound_loop[OF refl pos old rest n] show ?thesis
    unfolding year_bound_def r by (simp add: algebra_simps)
qed

lemma state_at_cfg_sweep_0: "state_at cfg_sweep (12 * 0) = Some (initial_state cfg_sweep 100)"
  by (simp add: state_at_def initial_payment_def pmt_def float_power_def current_rate_def
      fixed_period_schedule_def n_payments_total_def cfg_sweep_def Let_def)

theorem C2_witness:
  "run_simulation cfg_sweep = Some cfg_sweep_result \<and>
   state_at cfg_sweep (12 * 0) = Some (initial_state cfg_sweep 100) \<and>
   12 * 0 < length (res_rows cfg_sweep_result) \<and>
   mortgage_balance (initial_state cfg_sweep 100) = 6000 \<and>
   annual_total 0 (res_overpayment_events cfg_sweep_result) = 600 \<and>
   sweep_count 0 (res_overpayment_events cfg_sweep_result) = 1 \<and>
   annual_total 0 (res_overpayment_events cfg_sweep_result) \<le>
     (1 + real (sweep_count 0 (res_overpayment_events cfg_sweep_result))) *
       (0.10 * mortgage_balance (initial_state cfg_sweep 100))"
proof -
  have len: "12 * 0 < length (res_rows cfg_sweep_result)"
    by (simp add: cfg_sweep_result_def)
  have v: "mortgage_balance (initial_state cfg_sweep 100) = 6000"
    "annual_total 0 (res_overpayment_events cfg_sweep_result) = 600"
    "sweep_count 0 (res_overpayment_events cfg_sweep_result) = 1"
    by (simp_all add: initial_state_def cfg_sweep_def cfg_sweep_result_def annual_total_def
        sweep_count_def logged_amounts_def is_annual_def is_period_end_def)
  from C2_annual_allowance_bound[OF run_cfg_sweep state_at_cfg_sweep_0 len]
  show ?thesis using run_cfg_sweep state_at_cfg_sweep_0 len v by blast
qed

subsection \<open>Zero rates: the payment in force and the interest\<close>


















end
